theory Spec2Isabelle
  imports Main "HOL-Library.AList" "HOL-Library.Char_ord" "HOL-Library.List_Lexorder"
    "HOL-Library.Multiset" "HOL-Library.Sublist"
begin

section \<open>Data model (main.go, lines 36-72)\<close>

text \<open>
  A Go slice field is \<open>string list option\<close>: \<open>None\<close> is the nil slice, \<open>Some []\<close> an empty
  non-nil slice. \<open>len\<close> does not tell them apart, \<open>reflect.Value.IsZero\<close> does.
\<close>

record commandSet =
  Ver :: "string list option"
  CheckLatest :: "string list option"
  Install :: "string list option"
  Update :: "string list option"

record namedCommandSet =
  Name :: string
  Set :: commandSet

datatype command = commandVer | commandChecklatest | commandInstall | commandUpdate

text \<open>The string behind each \<open>command\<close> constant (\<open>string(kind)\<close> in the source).\<close>

fun command_string :: "command \<Rightarrow> string" where
  "command_string commandVer = ''ver''"
| "command_string commandChecklatest = ''checklatest''"
| "command_string commandInstall = ''install''"
| "command_string commandUpdate = ''update''"

text \<open>
  \<open>commandSet.Select\<close>. The \<open>default\<close> branch of the source panics on an unknown kind; the
  four constants are the only values of the datatype, so that branch has no counterpart.
\<close>

fun Select :: "commandSet \<Rightarrow> command \<Rightarrow> string list option" where
  "Select c commandVer = Ver c"
| "Select c commandChecklatest = CheckLatest c"
| "Select c commandInstall = Install c"
| "Select c commandUpdate = Update c"

text \<open>The elements of a slice; a nil slice has none.\<close>

fun elems :: "'a list option \<Rightarrow> 'a list" where
  "elems None = []"
| "elems (Some xs) = xs"

text \<open>\<open>reflect.ValueOf(set).IsZero()\<close> on a \<open>commandSet\<close>: every field is the nil slice.\<close>

definition IsZero :: "commandSet \<Rightarrow> bool" where
  "IsZero c \<longleftrightarrow> Ver c = None \<and> CheckLatest c = None \<and> Install c = None \<and> Update c = None"

section \<open>Placeholder substitution\<close>

text \<open>
  Modelled from the spec: the type \<open>dictReplacer\<close> and its method \<open>Map\<close> are used by
  \<open>commandExecutor.Exec\<close> (main.go, lines 106-111) but declared in a file that is not part
  of the sources at hand. The spec (section 4.1) says: every occurrence of each placeholder
  literal within each token is replaced by its value, tokens without placeholders pass
  through unchanged, replacement is literal and there is no error.

  A token is scanned once from left to right. Where a key of the dictionary starts, its value
  is emitted and the scan goes on behind the key; elsewhere the character is copied. Text
  that was emitted is not scanned again. An empty key matches nowhere.
\<close>

type_synonym dictReplacer = "(string \<times> string) list"

fun match_key :: "dictReplacer \<Rightarrow> string \<Rightarrow> (string \<times> string) option" where
  "match_key [] s = None"
| "match_key ((k, r) # d) s = (if k \<noteq> [] \<and> prefix k s then Some (k, r) else match_key d s)"

function replace_all :: "dictReplacer \<Rightarrow> string \<Rightarrow> string" where
  "replace_all d [] = []"
| "replace_all d (c # cs) =
     (case match_key d (c # cs) of
        Some (k, r) \<Rightarrow> r @ replace_all d (drop (length k) (c # cs))
      | None \<Rightarrow> c # replace_all d cs)"
  by pat_completeness auto
termination
proof (relation "measure (\<lambda>(d, s). length s)")
  show "wf (measure (\<lambda>(d, s). length s))" by simp
next
  fix d :: dictReplacer and c :: char and cs x2 k r
  assume "match_key d (c # cs) = Some x2" "(k, r) = x2"
  then have "match_key d (c # cs) = Some (k, r)" by simp
  then have "k \<noteq> []" by (induction d) (auto split: if_splits)
  then show "((d, drop (length k) (c # cs)), (d, c # cs)) \<in> measure (\<lambda>(d, s). length s)"
    by (cases k) auto
next
  fix d :: dictReplacer and c :: char and cs
  show "((d, cs), (d, c # cs)) \<in> measure (\<lambda>(d, s). length s)" by simp
qed

definition dictReplacer_Map :: "dictReplacer \<Rightarrow> string list \<Rightarrow> string list" where
  "dictReplacer_Map d args = map (replace_all d) args"

text \<open>The dictionary that \<open>Exec\<close> builds (lines 106-110).\<close>

definition exec_dict :: "string \<Rightarrow> string \<Rightarrow> string \<Rightarrow> dictReplacer" where
  "exec_dict ver goos goarch = [(''${VER}'', ver), (''${OS}'', goos), (''${ARCH}'', goarch)]"

section \<open>The host: operating system and library\<close>

text \<open>
  What the program takes from outside is a parameter. \<open>'w\<close> is the state of the world
  (file system, installed packages, what the child processes will answer):
  \<^item> \<open>GOOS\<close>, \<open>GOARCH\<close>: \<open>runtime.GOOS\<close>, \<open>runtime.GOARCH\<close>;
  \<^item> \<open>Join\<close>: \<open>filepath.Join\<close>; \<open>TrimSpace\<close>: \<open>strings.TrimSpace\<close>;
  \<^item> \<open>Stat w p\<close>: \<open>os.Stat(p)\<close> returns no error;
  \<^item> \<open>Environ\<close>: \<open>os.Environ()\<close>;
  \<^item> \<open>Run args env mirror w\<close>: \<open>cmd.Run()\<close> of the child with argument vector \<open>args\<close> and
    environment \<open>env\<close>; \<open>mirror\<close> says that its standard output is also copied to the
    caller's. It gives the captured standard output, the error if any, and the new world.
\<close>

datatype error = CommandNotFound | ProcessError string

record 'w host =
  GOOS :: string
  GOARCH :: string
  Join :: "string list \<Rightarrow> string"
  TrimSpace :: "string \<Rightarrow> string"
  Stat :: "'w \<Rightarrow> string \<Rightarrow> bool"
  Environ :: "'w \<Rightarrow> string list"
  Run :: "string list \<Rightarrow> string list \<Rightarrow> bool \<Rightarrow> 'w \<Rightarrow> (string \<times> error option) \<times> 'w"

text \<open>
  The error values that \<open>main\<close> builds with \<open>fmt.Errorf\<close> and either panics with or prints
  after \<open>warn: failed:\<close>.
\<close>

datatype failure =
    InstallFailed string error
  | VerFailed string error
  | ChecklatestFailed string error
  | UpdatingFailed string error
  | PinSpace string
  | Fatal error

text \<open>What \<open>main\<close> prints, one constructor for each \<open>fmt.Printf\<close> of lines 363-460.\<close>

datatype printed =
    OutInstalling string
  | OutSkipping string string
  | OutFetchFailed error
  | OutWarn failure
  | OutInstallDone string
  | OutJSON "(string \<times> string) list"
  | OutPlan string string string
  | OutPinned
  | OutNoUpdate
  | OutNewline
  | OutUpdating string
  | OutUpdated string

text \<open>
  The observable history of a run, in order: each \<open>os.Stat\<close> probe, each child process
  launched (argument vector, environment, mirror flag), each return of \<open>Exec\<close> (target, kind,
  version, verbose flag, captured output, error) and each line printed.
\<close>

datatype event =
    EvStat string
  | EvLaunch "string list" "string list" bool
  | EvExec string command string bool string "error option"
  | EvPrint printed

section \<open>commandExecutor.Exec (lines 98-148)\<close>

definition suffixes :: "string list" where
  "suffixes = ['''', ''.sh'', ''.exe'', ''.bat'', ''.ps1'']"

text \<open>
  The loop of lines 113-120 over the remaining suffixes: the paths probed, in order, and the
  first one that exists.
\<close>

fun discover :: "'w host \<Rightarrow> 'w \<Rightarrow> string \<Rightarrow> string \<Rightarrow> command \<Rightarrow> string list
    \<Rightarrow> string list \<times> string option" where
  "discover h w dir nm kind [] = ([], None)"
| "discover h w dir nm kind (suf # sufs) =
     (let p = Join h [dir, nm, command_string kind @ suf] in
      if Stat h w p then ([p], Some p)
      else (case discover h w dir nm kind sufs of (ps, r) \<Rightarrow> (p # ps, r)))"

text \<open>Lines 104-124: the paths probed and the argument vector, or the error.\<close>

definition Exec_resolve :: "'w host \<Rightarrow> 'w \<Rightarrow> string \<Rightarrow> namedCommandSet \<Rightarrow> command \<Rightarrow> string
    \<Rightarrow> string list \<times> (error + string list)" where
  "Exec_resolve h w dir cs kind ver =
     (let args = elems (Select (Set cs) kind) in
      if length args > 0 then
        ([], Inr (dictReplacer_Map (exec_dict ver (GOOS h) (GOARCH h)) args))
      else
        (case discover h w dir (Name cs) kind suffixes of
           (ps, Some p) \<Rightarrow> (ps, Inr [p])
         | (ps, None) \<Rightarrow> (ps, Inl CommandNotFound)))"

text \<open>Lines 141-144: the environment of the child.\<close>

definition child_env :: "'w host \<Rightarrow> 'w \<Rightarrow> string \<Rightarrow> string list" where
  "child_env h w ver =
     (let env = Environ h w @ [''OS='' @ GOOS h, ''ARCH='' @ GOARCH h] in
      if ver \<noteq> [] then env @ [''VER='' @ ver] else env)"

definition Exec :: "'w host \<Rightarrow> string \<Rightarrow> namedCommandSet \<Rightarrow> command \<Rightarrow> string \<Rightarrow> bool \<Rightarrow> 'w
    \<Rightarrow> (string \<times> error option) \<times> event list \<times> 'w" where
  "Exec h dir cs kind ver verbose w =
     (case Exec_resolve h w dir cs kind ver of
        (ps, Inl e) \<Rightarrow>
          (([], Some e), map EvStat ps @ [EvExec (Name cs) kind ver verbose [] (Some e)], w)
      | (ps, Inr args) \<Rightarrow>
          (case Run h args (child_env h w ver) verbose w of
             ((out, err), w') \<Rightarrow>
               ((out, err),
                map EvStat ps @ [EvLaunch args (child_env h w ver) verbose,
                  EvExec (Name cs) kind ver verbose out err],
                w')))"

section \<open>Go maps and \<open>cmp.Or\<close>\<close>

text \<open>
  A \<open>map[string]string\<close> is an association list with one pair for each key. \<open>m[k]\<close> gives the
  empty string for a key that is absent; \<open>m[k] = x\<close> is \<open>AList.update k x m\<close>.
\<close>

definition index :: "(string \<times> string) list \<Rightarrow> string \<Rightarrow> string" where
  "index m k = (case map_of m k of None \<Rightarrow> [] | Some x \<Rightarrow> x)"

text \<open>\<open>cmp.Or(a, b)\<close> on strings: the first argument that is not the empty string.\<close>

definition cmp_Or :: "string \<Rightarrow> string \<Rightarrow> string" where
  "cmp_Or a b = (if a \<noteq> [] then a else b)"

section \<open>The loops of main (lines 346-462)\<close>

text \<open>
  A \<open>for\<close> loop whose body may panic: the bodies run in order on the state, the histories are
  concatenated, and the first panic ends the loop with the history and the state reached.
\<close>

fun for_each :: "('a \<Rightarrow> 's \<Rightarrow> failure option \<times> event list \<times> 's) \<Rightarrow> 'a list \<Rightarrow> 's
    \<Rightarrow> failure option \<times> event list \<times> 's" where
  "for_each body [] st = (None, [], st)"
| "for_each body (x # xs) st =
     (case body x st of
        (Some p, evs, st') \<Rightarrow> (Some p, evs, st')
      | (None, evs, st') \<Rightarrow>
          (case for_each body xs st' of (r, evs', st'') \<Rightarrow> (r, evs @ evs', st'')))"

text \<open>Lines 363-386: the body of the install loop for one target.\<close>

definition install_one :: "'w host \<Rightarrow> string \<Rightarrow> (string \<times> string) list \<Rightarrow> bool \<Rightarrow> bool
    \<Rightarrow> namedCommandSet \<Rightarrow> 'w \<Rightarrow> failure option \<times> event list \<times> 'w" where
  "install_one h dir pinnedVersions v f s w =
     (case Exec h dir s commandVer [] False w of
        ((out, err), ev1, w1) \<Rightarrow>
          (case err of
             None \<Rightarrow>
               (None,
                EvPrint (OutInstalling (Name s)) # ev1 @
                  [EvPrint (OutSkipping (Name s) (TrimSpace h out))],
                w1)
           | Some _ \<Rightarrow>
               (case Exec h dir s commandChecklatest [] False w1 of
                  ((out2, err2), ev2, w2) \<Rightarrow>
                    (let ver = (case err2 of None \<Rightarrow> TrimSpace h out2 | Some _ \<Rightarrow> []);
                         warn = (case err2 of None \<Rightarrow> [] | Some e \<Rightarrow> [EvPrint (OutFetchFailed e)]);
                         pre = EvPrint (OutInstalling (Name s)) # ev1 @ ev2 @ warn
                     in case Exec h dir s commandInstall
                               (cmp_Or (index pinnedVersions (Name s)) ver) v w2 of
                          ((out3, err3), ev3, w3) \<Rightarrow>
                            (case err3 of
                               Some e \<Rightarrow>
                                 if \<not> f then (Some (InstallFailed (Name s) e), pre @ ev3, w3)
                                 else (None,
                                       pre @ ev3 @ [EvPrint (OutWarn (InstallFailed (Name s) e))],
                                       w3)
                             | None \<Rightarrow>
                                 (None, pre @ ev3 @ [EvPrint (OutInstallDone (Name s))], w3))))))"

text \<open>
  The body of the loop of lines 389-399 (\<open>kind = commandVer\<close>, \<open>wrap = VerFailed\<close>, the map is
  \<open>currentVersions\<close>) and of lines 402-412 (\<open>kind = commandChecklatest\<close>,
  \<open>wrap = ChecklatestFailed\<close>, the map is \<open>latestVersions\<close>): the two loops differ in nothing
  else. The state is the map and the world.
\<close>

definition version_one :: "'w host \<Rightarrow> string \<Rightarrow> bool \<Rightarrow> command \<Rightarrow> (string \<Rightarrow> error \<Rightarrow> failure)
    \<Rightarrow> namedCommandSet \<Rightarrow> (string \<times> string) list \<times> 'w
    \<Rightarrow> failure option \<times> event list \<times> (string \<times> string) list \<times> 'w" where
  "version_one h dir f kind wrap s st =
     (case st of (versions, w) \<Rightarrow>
        (case Exec h dir s kind [] False w of
           ((out, err), ev, w1) \<Rightarrow>
             (case err of
                Some e \<Rightarrow>
                  if \<not> f then (Some (wrap (Name s) e), ev, (versions, w1))
                  else (None, ev @ [EvPrint (OutWarn (wrap (Name s) e))],
                        (AList.update (Name s) (TrimSpace h out) versions, w1))
              | None \<Rightarrow> (None, ev, (AList.update (Name s) (TrimSpace h out) versions, w1)))))"

text \<open>The whole loop and the \<open>json.MarshalIndent\<close> line after it (lines 400 and 413).\<close>

definition version_loop :: "'w host \<Rightarrow> string \<Rightarrow> bool \<Rightarrow> command \<Rightarrow> (string \<Rightarrow> error \<Rightarrow> failure)
    \<Rightarrow> namedCommandSet list \<Rightarrow> 'w \<Rightarrow> failure option \<times> event list \<times> 'w" where
  "version_loop h dir f kind wrap sets w =
     (case for_each (version_one h dir f kind wrap) sets ([], w) of
        (Some p, evs, (versions, w')) \<Rightarrow> (Some p, evs, w')
      | (None, evs, (versions, w')) \<Rightarrow> (None, evs @ [EvPrint (OutJSON versions)], w'))"

text \<open>
  Lines 416-431: the body of the first loop of an update run. The state is
  \<open>currentVersions\<close>, \<open>latestVersions\<close> and the world.
\<close>

definition gather_one :: "'w host \<Rightarrow> string \<Rightarrow> bool \<Rightarrow> namedCommandSet
    \<Rightarrow> (string \<times> string) list \<times> (string \<times> string) list \<times> 'w
    \<Rightarrow> failure option \<times> event list \<times> (string \<times> string) list \<times> (string \<times> string) list \<times> 'w" where
  "gather_one h dir v s st =
     (case st of (currentVersions, latestVersions, w) \<Rightarrow>
        (case Exec h dir s commandVer [] v w of
           ((out, err), ev1, w1) \<Rightarrow>
             (case err of
                Some e \<Rightarrow> (Some (VerFailed (Name s) e), ev1, (currentVersions, latestVersions, w1))
              | None \<Rightarrow>
                  (let cur = AList.update (Name s) (TrimSpace h out) currentVersions in
                   case Exec h dir s commandChecklatest [] v w1 of
                     ((out2, err2), ev2, w2) \<Rightarrow>
                       (case err2 of
                          Some e \<Rightarrow>
                            (Some (ChecklatestFailed (Name s) e), ev1 @ ev2,
                             (cur, latestVersions, w2))
                        | None \<Rightarrow>
                            (None, ev1 @ ev2,
                             (cur, AList.update (Name s) (TrimSpace h out2) latestVersions,
                              w2)))))))"

text \<open>
  Lines 439-452: the second loop. It prints one line for each target and queues the targets
  to update, each with its target version (\<open>targetedExecutor\<close> is the pair).
\<close>

type_synonym targetedExecutor = "string \<times> namedCommandSet"

fun plan :: "(string \<times> string) list \<Rightarrow> (string \<times> string) list \<Rightarrow> (string \<times> string) list
    \<Rightarrow> namedCommandSet list \<Rightarrow> event list \<times> targetedExecutor list" where
  "plan pinnedVersions currentVersions latestVersions [] = ([], [])"
| "plan pinnedVersions currentVersions latestVersions (s # ss) =
     (let nm = Name s;
          tgt = cmp_Or (index pinnedVersions nm) (index latestVersions nm);
          line = EvPrint (OutPlan nm (index currentVersions nm) tgt) #
                 (if index pinnedVersions nm \<noteq> [] then [EvPrint OutPinned] else [])
      in case plan pinnedVersions currentVersions latestVersions ss of
           (evs, updates) \<Rightarrow>
             if index currentVersions nm = tgt
             then (line @ [EvPrint OutNoUpdate] @ evs, updates)
             else (line @ [EvPrint OutNewline] @ evs, (tgt, s) # updates))"

text \<open>Lines 455-460: the body of the third loop.\<close>

definition update_one :: "'w host \<Rightarrow> string \<Rightarrow> bool \<Rightarrow> targetedExecutor \<Rightarrow> 'w
    \<Rightarrow> failure option \<times> event list \<times> 'w" where
  "update_one h dir v t w =
     (case t of (tgt, s) \<Rightarrow>
        (case Exec h dir s commandUpdate tgt v w of
           ((out, err), ev, w1) \<Rightarrow>
             (case err of
                Some e \<Rightarrow>
                  (Some (UpdatingFailed (Name s) e), EvPrint (OutUpdating (Name s)) # ev, w1)
              | None \<Rightarrow>
                  (None, EvPrint (OutUpdating (Name s)) # ev @ [EvPrint (OutUpdated (Name s))],
                   w1))))"

text \<open>Lines 414-461: an update run.\<close>

definition update_run :: "'w host \<Rightarrow> string \<Rightarrow> (string \<times> string) list \<Rightarrow> bool
    \<Rightarrow> namedCommandSet list \<Rightarrow> 'w \<Rightarrow> failure option \<times> event list \<times> 'w" where
  "update_run h dir pinnedVersions v sets w =
     (case for_each (gather_one h dir v) sets ([], [], w) of
        (Some p, evs, (currentVersions, latestVersions, w1)) \<Rightarrow> (Some p, evs, w1)
      | (None, evs, (currentVersions, latestVersions, w1)) \<Rightarrow>
          (case plan pinnedVersions currentVersions latestVersions sets of
             (pevs, updates) \<Rightarrow>
               (case for_each (update_one h dir v) updates w1 of
                  (r, uevs, w2) \<Rightarrow> (r, evs @ pevs @ uevs, w2))))"

text \<open>Lines 360-462: the \<open>switch\<close> on the command. \<open>v\<close> and \<open>f\<close> are the two flags.\<close>

fun run_command :: "'w host \<Rightarrow> string \<Rightarrow> (string \<times> string) list \<Rightarrow> bool \<Rightarrow> bool
    \<Rightarrow> namedCommandSet list \<Rightarrow> command \<Rightarrow> 'w \<Rightarrow> failure option \<times> event list \<times> 'w" where
  "run_command h dir pinnedVersions v f sets commandInstall w =
     for_each (install_one h dir pinnedVersions v f) sets w"
| "run_command h dir pinnedVersions v f sets commandVer w =
     version_loop h dir f commandVer VerFailed sets w"
| "run_command h dir pinnedVersions v f sets commandChecklatest w =
     version_loop h dir f commandChecklatest ChecklatestFailed sets w"
| "run_command h dir pinnedVersions v f sets commandUpdate w =
     update_run h dir pinnedVersions v sets w"

section \<open>Pinned versions and the run as a whole (lines 233-462)\<close>

text \<open>
  What \<open>os.Open\<close> on a file gives: \<open>fs.ErrNotExist\<close>, another error, or the file, here with
  what the JSON decoder makes of it.
\<close>

datatype 'a opened = NotExist | OpenFailed error | Opened 'a

text \<open>Lines 233-245.\<close>

fun load_pins :: "(error + (string \<times> string) list) opened \<Rightarrow> failure + (string \<times> string) list" where
  "load_pins NotExist = Inr []"
| "load_pins (OpenFailed e) = Inl (Fatal e)"
| "load_pins (Opened (Inl e)) = Inl (Fatal e)"
| "load_pins (Opened (Inr m)) = Inr m"

text \<open>Lines 247-251, the pairs in the order the \<open>range\<close> loop visits them.\<close>

fun check_pins :: "'w host \<Rightarrow> (string \<times> string) list \<Rightarrow> failure option" where
  "check_pins h [] = None"
| "check_pins h ((k, x) # kvs) =
     (if k \<noteq> TrimSpace h k \<or> x \<noteq> TrimSpace h x then Some (PinSpace k) else check_pins h kvs)"

text \<open>
  Lines 233-462. \<open>pinFile\<close> is what opening and decoding \<open>.pin.json\<close> gives and \<open>targets\<close> what
  the enumeration of lines 253-344 gives, a panic or the list \<open>sets\<close>.
\<close>

definition main_run :: "'w host \<Rightarrow> string \<Rightarrow> bool \<Rightarrow> bool \<Rightarrow> command
    \<Rightarrow> (error + (string \<times> string) list) opened \<Rightarrow> failure + namedCommandSet list \<Rightarrow> 'w
    \<Rightarrow> failure option \<times> event list \<times> 'w" where
  "main_run h dir v f cmd pinFile targets w =
     (case load_pins pinFile of
        Inl p \<Rightarrow> (Some p, [], w)
      | Inr pinnedVersions \<Rightarrow>
          (case check_pins h pinnedVersions of
             Some p \<Rightarrow> (Some p, [], w)
           | None \<Rightarrow>
               (case targets of
                  Inl p \<Rightarrow> (Some p, [], w)
                | Inr sets \<Rightarrow> run_command h dir pinnedVersions v f sets cmd w)))"

section \<open>Ordering and de-duplication of the targets (lines 325-343)\<close>

text \<open>\<open>cmp.Compare\<close> on strings, which Go orders byte by byte.\<close>

definition cmp_Compare :: "string \<Rightarrow> string \<Rightarrow> int" where
  "cmp_Compare a b = (if a < b then - 1 else if b < a then 1 else 0)"

text \<open>The comparison function of lines 327-340.\<close>

definition sets_cmp :: "namedCommandSet \<Rightarrow> namedCommandSet \<Rightarrow> int" where
  "sets_cmp i j =
     (let c = cmp_Compare (Name i) (Name j) in
      if c \<noteq> 0 then c
      else if IsZero (Set i) then 1
      else if IsZero (Set j) then - 1
      else 0)"

text \<open>
  \<open>slices.SortFunc\<close> is not stable, so its result is specified, not computed: \<open>ys\<close> is a
  result of sorting \<open>xs\<close> when it has the same elements and no element is less than one
  before it.
\<close>

definition SortFunc_result :: "('a \<Rightarrow> 'a \<Rightarrow> int) \<Rightarrow> 'a list \<Rightarrow> 'a list \<Rightarrow> bool" where
  "SortFunc_result cmp xs ys \<longleftrightarrow> mset ys = mset xs \<and> sorted_wrt (\<lambda>a b. \<not> cmp b a < 0) ys"

text \<open>
  \<open>slices.CompactFunc\<close>: an element is dropped when \<open>eq\<close> holds of it and the element before
  it in the argument.
\<close>

fun compact_from :: "('a \<Rightarrow> 'a \<Rightarrow> bool) \<Rightarrow> 'a \<Rightarrow> 'a list \<Rightarrow> 'a list" where
  "compact_from eq prev [] = []"
| "compact_from eq prev (x # xs) =
     (if eq x prev then compact_from eq x xs else x # compact_from eq x xs)"

fun CompactFunc :: "'a list \<Rightarrow> ('a \<Rightarrow> 'a \<Rightarrow> bool) \<Rightarrow> 'a list" where
  "CompactFunc [] eq = []"
| "CompactFunc (x # xs) eq = x # compact_from eq x xs"

text \<open>Line 343.\<close>

definition compact_sets :: "namedCommandSet list \<Rightarrow> namedCommandSet list" where
  "compact_sets sets = CompactFunc sets (\<lambda>i j. Name i = Name j)"

section \<open>Reading a history\<close>



text \<open>The \<open>Exec\<close> returns of a history that are of a given kind for a given target.\<close>

fun is_exec :: "string \<Rightarrow> command \<Rightarrow> event \<Rightarrow> bool" where
  "is_exec nm kind (EvExec nm' kind' ver verbose out err) \<longleftrightarrow> nm' = nm \<and> kind' = kind"
| "is_exec nm kind _ \<longleftrightarrow> False"

text \<open>A probe or a launch: what \<open>Exec\<close> records before it returns.\<close>

fun quiet :: "event \<Rightarrow> bool" where
  "quiet (EvStat p) = True"
| "quiet (EvLaunch args env m) = True"
| "quiet _ = False"

fun is_print :: "event \<Rightarrow> bool" where
  "is_print (EvPrint x) = True"
| "is_print _ = False"


text \<open>
  What an install run does for the target named \<open>n\<close>, read off the history \<open>tr\<close> and the
  outcome \<open>r\<close>: a successful \<open>ver\<close> is followed by the skipping line and no \<open>install\<close>; a
  failed \<open>ver\<close> is followed by \<open>checklatest\<close> and by \<open>install\<close> with the pinned version if
  that is not empty, else with the trimmed latest version, or with the empty string when
  \<open>checklatest\<close> failed; a failed \<open>install\<close> is warned about under the force flag and is
  otherwise the panic that ends the history.
\<close>

definition install_law :: "'w host \<Rightarrow> (string \<times> string) list \<Rightarrow> bool \<Rightarrow> bool \<Rightarrow> string
    \<Rightarrow> failure option \<Rightarrow> event list \<Rightarrow> bool" where
  "install_law h pins v f n r tr \<longleftrightarrow>
     (\<forall>out. EvExec n commandVer [] False out None \<in> set tr \<longrightarrow>
        EvPrint (OutSkipping n (TrimSpace h out)) \<in> set tr \<and>
        (\<forall>e \<in> set tr. \<not> is_exec n commandInstall e)) \<and>
     (\<forall>out1 e1. EvExec n commandVer [] False out1 (Some e1) \<in> set tr \<longrightarrow>
        (\<exists>out2 err2. EvExec n commandChecklatest [] False out2 err2 \<in> set tr)) \<and>
     (\<forall>out1 e1 out2 err2.
        EvExec n commandVer [] False out1 (Some e1) \<in> set tr \<and>
        EvExec n commandChecklatest [] False out2 err2 \<in> set tr \<longrightarrow>
        (\<exists>out3 err3. EvExec n commandInstall
           (if index pins n \<noteq> [] then index pins n
            else if err2 = None then TrimSpace h out2 else []) v out3 err3 \<in> set tr)) \<and>
     (\<forall>ver vb out e. EvExec n commandInstall ver vb out (Some e) \<in> set tr \<longrightarrow>
        (if f then EvPrint (OutWarn (InstallFailed n e)) \<in> set tr
         else r = Some (InstallFailed n e) \<and> tr \<noteq> [] \<and>
              last tr = EvExec n commandInstall ver vb out (Some e)))"

text \<open>
  Replaying a history against the host, from the world in which the run began. A launch must
  be followed at once by the return of its \<open>Exec\<close>; that return must report the output and
  the error that \<open>Run\<close> gives for the launched vector and environment in the world reached
  so far, with the verbose flag as mirror flag and the environment of lines 141-144, and the
  world goes on as \<open>Run\<close> leaves it. A return without a launch must be "command not found"
  with nothing captured. Probes and printed lines leave the world alone. The result is the
  world reached, or \<open>None\<close> when the history is not what the host gives.
\<close>

fun replay :: "'w host \<Rightarrow> 'w \<Rightarrow> event list \<Rightarrow> 'w option" where
  "replay h w [] = Some w"
| "replay h w (EvStat p # evs) = replay h w evs"
| "replay h w (EvPrint x # evs) = replay h w evs"
| "replay h w (EvLaunch args env m # EvExec n k ver vb out err # evs) =
     (if fst (Run h args env m w) = (out, err) \<and> m = vb \<and> env = child_env h w ver
      then replay h (snd (Run h args env m w)) evs
      else None)"
| "replay h w (EvLaunch args env m # evs) = None"
| "replay h w (EvExec n k ver vb out err # evs) =
     (if out = [] \<and> err = Some CommandNotFound then replay h w evs else None)"

section \<open>A small host\<close>

text \<open>
  A host to run the model on: \<open>echo x\<close> prints \<open>x\<close>; \<open>fail x\<close> prints \<open>x\<close> and fails;
  \<open>env\<close> prints its environment, one variable on a line; every other command fails
  without output; the only file is the script \<open>cfg/bar/ver.sh\<close>, which prints \<open>2.3.1\<close>.
  The world counts the processes run.
\<close>

definition ascii_space :: "char \<Rightarrow> bool" where
  "ascii_space c \<longleftrightarrow> c \<in> set [CHR '' '', CHR 0x09, CHR 0x0A, CHR 0x0B, CHR 0x0C, CHR 0x0D]"

definition trim_ascii :: "string \<Rightarrow> string" where
  "trim_ascii s = rev (dropWhile ascii_space (rev (dropWhile ascii_space s)))"

fun join_slash :: "string list \<Rightarrow> string" where
  "join_slash [] = []"
| "join_slash [p] = p"
| "join_slash (p # ps) = p @ ''/'' @ join_slash ps"

fun small_run :: "string list \<Rightarrow> string list \<Rightarrow> bool \<Rightarrow> nat \<Rightarrow> (string \<times> error option) \<times> nat" where
  "small_run [a, x] env mirror w =
     (if a = ''echo'' then ((x @ [CHR 0x0A], None), Suc w)
      else if a = ''fail'' then ((x @ [CHR 0x0A], Some (ProcessError ''exit status 1'')), Suc w)
      else (([], Some (ProcessError ''exit status 1'')), Suc w))"
| "small_run [p] env mirror w =
     (if p = ''cfg/bar/ver.sh'' then ((''2.3.1'' @ [CHR 0x0A], None), Suc w)
      else if p = ''env'' then ((concat (map (\<lambda>e. e @ [CHR 0x0A]) env), None), Suc w)
      else (([], Some (ProcessError ''exit status 1'')), Suc w))"
| "small_run args env mirror w = (([], Some (ProcessError ''exit status 1'')), Suc w)"

definition small_host :: "nat host" where
  "small_host =
     \<lparr>GOOS = ''linux'', GOARCH = ''amd64'', Join = join_slash, TrimSpace = trim_ascii,
      Stat = (\<lambda>w p. p = ''cfg/bar/ver.sh''), Environ = (\<lambda>w. [''HOME=/root'']),
      Run = small_run\<rparr>"

text \<open>A command set with the given templates for \<open>ver\<close>, \<open>checklatest\<close>, \<open>install\<close>, \<open>update\<close>.\<close>

definition target :: "string \<Rightarrow> string list option \<Rightarrow> string list option \<Rightarrow> string list option
    \<Rightarrow> string list option \<Rightarrow> namedCommandSet" where
  "target nm a b c d = \<lparr>Name = nm, Set = \<lparr>Ver = a, CheckLatest = b, Install = c, Update = d\<rparr>\<rparr>"

section \<open>Resolution and execution of one command\<close>

lemma discover_find:
  "discover h w dir nm kind sufs =
     (let cands = map (\<lambda>suf. Join h [dir, nm, command_string kind @ suf]) sufs in
      case find (Stat h w) cands of
        Some p \<Rightarrow> (takeWhile (\<lambda>q. \<not> Stat h w q) cands @ [p], Some p)
      | None \<Rightarrow> (cands, None))"
  by (induction sufs) (auto simp: Let_def split: option.splits)

text \<open>
  Claim C1. For every command set and every kind \<open>K\<close>. When the template for \<open>K\<close> has
  elements, what \<open>Exec\<close> returns is what \<open>Run\<close> gives for the template with the placeholders
  \<open>${VER}\<close>, \<open>${OS}\<close>, \<open>${ARCH}\<close> of each token replaced by the version, the host OS and the
  host architecture; the history has the launch of that vector and no probe, and the outcome
  is the same whatever the file system holds. When the template has none, \<open>Exec\<close> probes the
  paths \<open>Join [dir, name, K @ suf]\<close> for the suffixes empty, \<open>.sh\<close>, \<open>.exe\<close>, \<open>.bat\<close>,
  \<open>.ps1\<close> in this order up to the first that exists, and what it returns is what \<open>Run\<close> gives
  for that path alone. When none of the five exists it has probed all five, runs nothing (the
  world is unchanged) and returns the error "command not found".
\<close>

theorem Exec_resolution:
  "(let tmpl = elems (Select (Set cs) K);
        cands = map (\<lambda>suf. Join h [dir, Name cs, command_string K @ suf])
                  ['''', ''.sh'', ''.exe'', ''.bat'', ''.ps1''];
        env = child_env h w ver
    in (tmpl \<noteq> [] \<longrightarrow>
          (let args = map (replace_all
                  [(''${VER}'', ver), (''${OS}'', GOOS h), (''${ARCH}'', GOARCH h)]) tmpl;
               ran = Run h args env verbose w
           in Exec h dir cs K ver verbose w =
                (fst ran,
                 [EvLaunch args env verbose,
                  EvExec (Name cs) K ver verbose (fst (fst ran)) (snd (fst ran))],
                 snd ran) \<and>
              (\<forall>st. Exec (h\<lparr>Stat := st\<rparr>) dir cs K ver verbose w
                 = Exec h dir cs K ver verbose w))) \<and>
       (tmpl = [] \<longrightarrow>
          (case find (Stat h w) cands of
             Some p \<Rightarrow>
               (let ran = Run h [p] env verbose w
                in Exec h dir cs K ver verbose w =
                     (fst ran,
                      map EvStat (takeWhile (\<lambda>q. \<not> Stat h w q) cands @ [p]) @
                        [EvLaunch [p] env verbose,
                         EvExec (Name cs) K ver verbose (fst (fst ran)) (snd (fst ran))],
                      snd ran))
           | None \<Rightarrow>
               Exec h dir cs K ver verbose w =
                 (([], Some CommandNotFound),
                  map EvStat cands @
                    [EvExec (Name cs) K ver verbose [] (Some CommandNotFound)],
                  w))))"
proof -
  let ?tmpl = "elems (Select (Set cs) K)"
  show ?thesis
  proof (cases "?tmpl = []")
    case False
    then show ?thesis
      by (simp add: Let_def Exec_def Exec_resolve_def dictReplacer_Map_def exec_dict_def
          child_env_def split: prod.splits)
  next
    case True
    then show ?thesis
      by (auto simp: Let_def Exec_def Exec_resolve_def discover_find suffixes_def
          split: prod.splits option.splits)
  qed
qed

text \<open>
  Claim C7. Whenever \<open>Exec\<close> launches a child, that is whenever the command resolves to an
  argument vector, what \<open>Exec\<close> returns is what \<open>Run\<close> gives for that vector in the
  environment of the parent followed by \<open>OS=\<close> the host OS and \<open>ARCH=\<close> the host
  architecture, and followed by \<open>VER=\<close> the version exactly when the version is not the empty
  string; the launch in the history carries the same environment. When the command does not
  resolve, no child is launched and the world is unchanged.
\<close>

theorem Exec_child_environment:
  "(let env = Environ h w @ [''OS='' @ GOOS h, ''ARCH='' @ GOARCH h] @
              (if ver \<noteq> [] then [''VER='' @ ver] else [])
    in case Exec_resolve h w dir cs kind ver of
         (ps, Inl e) \<Rightarrow>
           Exec h dir cs kind ver verbose w =
             (([], Some e), map EvStat ps @ [EvExec (Name cs) kind ver verbose [] (Some e)], w)
       | (ps, Inr args) \<Rightarrow>
           (let ran = Run h args env verbose w
            in Exec h dir cs kind ver verbose w =
                 (fst ran,
                  map EvStat ps @
                    [EvLaunch args env verbose,
                     EvExec (Name cs) kind ver verbose (fst (fst ran)) (snd (fst ran))],
                  snd ran)))"
  by (simp add: Let_def Exec_def child_env_def split: prod.splits sum.splits)

theorem Exec_resolution_witness:
  "elems (Select (Set (target ''foo'' None None (Some [''echo'', ''${VER}-${OS}'']) None))
     commandInstall) \<noteq> [] \<and>
   Exec small_host ''cfg'' (target ''foo'' None None (Some [''echo'', ''${VER}-${OS}'']) None)
     commandInstall ''1.0'' False 0
     = ((''1.0-linux'' @ [CHR 0x0A], None),
        [EvLaunch [''echo'', ''1.0-linux'']
           [''HOME=/root'', ''OS=linux'', ''ARCH=amd64'', ''VER=1.0''] False,
         EvExec ''foo'' commandInstall ''1.0'' False (''1.0-linux'' @ [CHR 0x0A]) None],
        1) \<and>
   elems (Select (Set (target ''bar'' None None None None)) commandVer) = [] \<and>
   Exec small_host ''cfg'' (target ''bar'' None None None None) commandVer [] False 0
     = ((''2.3.1'' @ [CHR 0x0A], None),
        [EvStat ''cfg/bar/ver'', EvStat ''cfg/bar/ver.sh'',
         EvLaunch [''cfg/bar/ver.sh''] [''HOME=/root'', ''OS=linux'', ''ARCH=amd64''] False,
         EvExec ''bar'' commandVer [] False (''2.3.1'' @ [CHR 0x0A]) None],
        1) \<and>
   elems (Select (Set (target ''bar'' None None None None)) commandUpdate) = [] \<and>
   Exec small_host ''cfg'' (target ''bar'' None None None None) commandUpdate [] False 0
     = (([], Some CommandNotFound),
        [EvStat ''cfg/bar/update'', EvStat ''cfg/bar/update.sh'', EvStat ''cfg/bar/update.exe'',
         EvStat ''cfg/bar/update.bat'', EvStat ''cfg/bar/update.ps1'',
         EvExec ''bar'' commandUpdate [] False [] (Some CommandNotFound)],
        0)"
  using Exec_resolution [of "target ''foo'' None None (Some [''echo'', ''${VER}-${OS}'']) None"
      commandInstall small_host "''cfg''" 0 "''1.0''" False]
    Exec_resolution [of "target ''bar'' None None None None" commandVer small_host "''cfg''"
      0 "[]" False]
    Exec_resolution [of "target ''bar'' None None None None" commandUpdate small_host "''cfg''"
      0 "[]" False]
  by (simp add: target_def small_host_def child_env_def Let_def)

theorem Exec_child_environment_witness:
  "Exec small_host ''cfg'' (target ''foo'' None None (Some [''env'']) None)
     commandInstall ''1.0'' False 0
     = ((''HOME=/root'' @ [CHR 0x0A] @ ''OS=linux'' @ [CHR 0x0A] @ ''ARCH=amd64'' @ [CHR 0x0A] @
           ''VER=1.0'' @ [CHR 0x0A], None),
        [EvLaunch [''env''] [''HOME=/root'', ''OS=linux'', ''ARCH=amd64'', ''VER=1.0''] False,
         EvExec ''foo'' commandInstall ''1.0'' False
           (''HOME=/root'' @ [CHR 0x0A] @ ''OS=linux'' @ [CHR 0x0A] @ ''ARCH=amd64'' @ [CHR 0x0A] @
            ''VER=1.0'' @ [CHR 0x0A]) None],
        1) \<and>
   Exec small_host ''cfg'' (target ''foo'' None None (Some [''env'']) None)
     commandInstall [] False 0
     = ((''HOME=/root'' @ [CHR 0x0A] @ ''OS=linux'' @ [CHR 0x0A] @ ''ARCH=amd64'' @ [CHR 0x0A],
         None),
        [EvLaunch [''env''] [''HOME=/root'', ''OS=linux'', ''ARCH=amd64''] False,
         EvExec ''foo'' commandInstall [] False
           (''HOME=/root'' @ [CHR 0x0A] @ ''OS=linux'' @ [CHR 0x0A] @ ''ARCH=amd64'' @ [CHR 0x0A])
           None],
        1) \<and>
   Exec small_host ''cfg'' (target ''bar'' None None None None) commandUpdate ''1.0'' False 0
     = (([], Some CommandNotFound),
        [EvStat ''cfg/bar/update'', EvStat ''cfg/bar/update.sh'', EvStat ''cfg/bar/update.exe'',
         EvStat ''cfg/bar/update.bat'', EvStat ''cfg/bar/update.ps1'',
         EvExec ''bar'' commandUpdate ''1.0'' False [] (Some CommandNotFound)],
        0)"
  using Exec_child_environment [of small_host 0 "''1.0''" "''cfg''"
      "target ''foo'' None None (Some [''env'']) None" commandInstall False]
    Exec_child_environment [of small_host 0 "[]" "''cfg''"
      "target ''foo'' None None (Some [''env'']) None" commandInstall False]
    Exec_child_environment [of small_host 0 "''1.0''" "''cfg''"
      "target ''bar'' None None None None" commandUpdate False]
  by (simp add: Exec_resolve_def dictReplacer_Map_def exec_dict_def suffixes_def target_def
      small_host_def Let_def)

section \<open>The enumerated targets\<close>

lemma sets_cmp_Name: "\<not> sets_cmp b a < 0 \<Longrightarrow> Name a \<le> Name b"
  by (auto simp: sets_cmp_def cmp_Compare_def Let_def split: if_splits)

lemma sets_cmp_IsZero:
  "\<not> sets_cmp b a < 0 \<Longrightarrow> Name a = Name b \<Longrightarrow> \<not> IsZero (Set b) \<Longrightarrow> \<not> IsZero (Set a)"
  by (auto simp: sets_cmp_def cmp_Compare_def Let_def split: if_splits)

lemma compact_from_subset: "set (compact_from eq p xs) \<subseteq> set xs"
  by (induction xs arbitrary: p) auto

lemma compact_from_names:
  "insert (Name p) (Name ` set (compact_from (\<lambda>i j. Name i = Name j) p xs))
     = insert (Name p) (Name ` set xs)"
proof (induction xs arbitrary: p)
  case Nil
  show ?case by simp
next
  case (Cons x xs)
  from Cons [of x] show ?case by (cases "Name x = Name p") auto
qed

lemma compact_from_ascending:
  "sorted_wrt (\<lambda>a b. \<not> sets_cmp b a < 0) (p # xs) \<Longrightarrow>
   sorted_wrt (\<lambda>a b. Name a < Name b) (compact_from (\<lambda>i j. Name i = Name j) p xs) \<and>
   (\<forall>t \<in> set (compact_from (\<lambda>i j. Name i = Name j) p xs). Name p < Name t)"
proof (induction xs arbitrary: p)
  case Nil
  show ?case by simp
next
  case (Cons x xs)
  from Cons.prems have px: "Name p \<le> Name x" by (simp add: sets_cmp_Name)
  from Cons.prems have "sorted_wrt (\<lambda>a b. \<not> sets_cmp b a < 0) (x # xs)" by simp
  from Cons.IH [OF this]
  have ih: "sorted_wrt (\<lambda>a b. Name a < Name b) (compact_from (\<lambda>i j. Name i = Name j) x xs)"
    "\<forall>t \<in> set (compact_from (\<lambda>i j. Name i = Name j) x xs). Name x < Name t" by simp_all
  show ?case
  proof (cases "Name x = Name p")
    case True
    with ih show ?thesis by simp
  next
    case False
    with px have "Name p < Name x" by simp
    with False ih show ?thesis by auto
  qed
qed

lemma compact_from_nonzero:
  "sorted_wrt (\<lambda>a b. \<not> sets_cmp b a < 0) (p # xs) \<Longrightarrow>
   t \<in> set (compact_from (\<lambda>i j. Name i = Name j) p xs) \<Longrightarrow> s \<in> set xs \<Longrightarrow>
   Name s = Name t \<Longrightarrow> \<not> IsZero (Set s) \<Longrightarrow> \<not> IsZero (Set t)"
proof (induction xs arbitrary: p)
  case Nil
  then show ?case by simp
next
  case (Cons x xs)
  from Cons.prems(1) have sx: "sorted_wrt (\<lambda>a b. \<not> sets_cmp b a < 0) (x # xs)" by simp
  from compact_from_ascending [OF sx]
  have above: "\<forall>u \<in> set (compact_from (\<lambda>i j. Name i = Name j) x xs). Name x < Name u" by simp
  show ?case
  proof (cases "t \<in> set (compact_from (\<lambda>i j. Name i = Name j) x xs)")
    case True
    with above have "Name x < Name t" by blast
    with Cons.prems(4) have "s \<noteq> x" by auto
    with Cons.prems(3) have "s \<in> set xs" by simp
    from Cons.IH [OF sx True this Cons.prems(4,5)] show ?thesis .
  next
    case False
    with Cons.prems(2) have tx: "t = x" by (auto split: if_splits)
    show ?thesis
    proof (cases "s = x")
      case True
      with tx Cons.prems(5) show ?thesis by simp
    next
      case False
      with Cons.prems(3) have "s \<in> set xs" by simp
      with sx have "\<not> sets_cmp s x < 0" by simp
      from sets_cmp_IsZero [OF this] Cons.prems(4,5) tx show ?thesis by simp
    qed
  qed
qed

text \<open>
  Claim C6. In all-targets mode the list of targets, after sorting and compacting, is in
  strictly ascending order of name, so it has one entry for each name; it has an entry for
  every name listed and only entries that were listed; and where a listed entry for a name is
  not the zero command set (a \<open>.json\<close> file beside a bare directory of the same name), the
  entry kept for that name is not the zero command set either.
\<close>

theorem enumerated_sorted_unique:
  assumes "SortFunc_result sets_cmp listed ys"
  shows "sorted_wrt (\<lambda>a b. Name a < Name b) (compact_sets ys) \<and>
         Name ` set (compact_sets ys) = Name ` set listed \<and>
         set (compact_sets ys) \<subseteq> set listed \<and>
         (\<forall>s \<in> set listed. \<not> IsZero (Set s) \<longrightarrow>
            (\<forall>t \<in> set (compact_sets ys). Name t = Name s \<longrightarrow> \<not> IsZero (Set t)))"
proof (cases ys)
  case Nil
  with assms show ?thesis by (simp add: SortFunc_result_def compact_sets_def)
next
  case (Cons x xs)
  from assms have "mset ys = mset listed" by (simp add: SortFunc_result_def)
  then have same: "set ys = set listed" by (rule mset_eq_setD)
  from assms Cons have srt: "sorted_wrt (\<lambda>a b. \<not> sets_cmp b a < 0) (x # xs)"
    by (simp add: SortFunc_result_def)
  have mem: "s = x \<or> s \<in> set xs" if "s \<in> set listed" for s
    using that same Cons by auto
  have cs: "compact_sets ys = x # compact_from (\<lambda>i j. Name i = Name j) x xs"
    using Cons by (simp add: compact_sets_def)
  from compact_from_ascending [OF srt]
  have asc: "sorted_wrt (\<lambda>a b. Name a < Name b) (compact_from (\<lambda>i j. Name i = Name j) x xs)"
    and above: "\<forall>t \<in> set (compact_from (\<lambda>i j. Name i = Name j) x xs). Name x < Name t"
    by simp_all
  have 1: "sorted_wrt (\<lambda>a b. Name a < Name b) (compact_sets ys)"
    using asc above cs by simp
  have 2: "Name ` set (compact_sets ys) = Name ` set listed"
  proof -
    have "Name ` set (compact_sets ys)
        = insert (Name x) (Name ` set (compact_from (\<lambda>i j. Name i = Name j) x xs))"
      using cs by simp
    also have "\<dots> = insert (Name x) (Name ` set xs)" by (rule compact_from_names)
    also have "\<dots> = Name ` set ys" using Cons by simp
    finally show ?thesis using same by simp
  qed
  have 3: "set (compact_sets ys) \<subseteq> set listed"
    using compact_from_subset [of "\<lambda>i j. Name i = Name j" x xs] cs Cons same by auto
  have 4: "\<not> IsZero (Set t)"
    if s: "s \<in> set listed" "\<not> IsZero (Set s)" and t: "t \<in> set (compact_sets ys)" "Name t = Name s"
    for s t
  proof (cases "t \<in> set (compact_from (\<lambda>i j. Name i = Name j) x xs)")
    case True
    with above have "Name x < Name t" by blast
    with t(2) have "s \<noteq> x" by auto
    with mem [OF s(1)] have "s \<in> set xs" by simp
    from compact_from_nonzero [OF srt True this] t(2) s(2) show ?thesis by simp
  next
    case False
    with t(1) cs have tx: "t = x" by simp
    show ?thesis
    proof (cases "s = x")
      case True
      with tx s(2) show ?thesis by simp
    next
      case False
      with mem [OF s(1)] have "s \<in> set xs" by simp
      with srt have "\<not> sets_cmp s x < 0" by simp
      from sets_cmp_IsZero [OF this] t(2) s(2) tx show ?thesis by simp
    qed
  qed
  from 1 2 3 4 show ?thesis by blast
qed

theorem enumerated_sorted_unique_witness:
  "SortFunc_result sets_cmp
     [target ''x'' None None None None, target ''b'' None None None None,
      target ''x'' (Some [''echo'', ''1'']) None None None]
     [target ''b'' None None None None, target ''x'' (Some [''echo'', ''1'']) None None None,
      target ''x'' None None None None] \<and>
   compact_sets
     [target ''b'' None None None None, target ''x'' (Some [''echo'', ''1'']) None None None,
      target ''x'' None None None None]
     = [target ''b'' None None None None, target ''x'' (Some [''echo'', ''1'']) None None None] \<and>
   \<not> IsZero (Set (target ''x'' (Some [''echo'', ''1'']) None None None))"
proof -
  have s: "SortFunc_result sets_cmp
     [target ''x'' None None None None, target ''b'' None None None None,
      target ''x'' (Some [''echo'', ''1'']) None None None]
     [target ''b'' None None None None, target ''x'' (Some [''echo'', ''1'']) None None None,
      target ''x'' None None None None]"
    by (simp add: SortFunc_result_def sets_cmp_def cmp_Compare_def IsZero_def target_def Let_def)
  have c: "compact_sets
     [target ''b'' None None None None, target ''x'' (Some [''echo'', ''1'']) None None None,
      target ''x'' None None None None]
     = [target ''b'' None None None None, target ''x'' (Some [''echo'', ''1'']) None None None]"
    by (simp add: compact_sets_def target_def)
  from enumerated_sorted_unique [OF s] s c show ?thesis
    by (simp add: IsZero_def target_def)
qed

section \<open>Loading the pinned versions\<close>

lemma check_pins_Some:
  "(k0, x0) \<in> set m \<Longrightarrow> k0 \<noteq> TrimSpace h k0 \<or> x0 \<noteq> TrimSpace h x0 \<Longrightarrow>
   \<exists>k x. (k, x) \<in> set m \<and> (k \<noteq> TrimSpace h k \<or> x \<noteq> TrimSpace h x) \<and>
     check_pins h m = Some (PinSpace k)"
proof (induction m)
  case Nil
  then show ?case by simp
next
  case (Cons kx m)
  obtain k x where kx: "kx = (k, x)" by (cases kx)
  show ?case
  proof (cases "k \<noteq> TrimSpace h k \<or> x \<noteq> TrimSpace h x")
    case True
    with kx show ?thesis by auto
  next
    case False
    with Cons.prems kx have "(k0, x0) \<in> set m" by auto
    from Cons.IH [OF this Cons.prems(2)] False kx show ?thesis by auto
  qed
qed

text \<open>
  Claim C8. When a key or a value of the loaded pinned-versions mapping differs from its
  trimmed form, the run panics with the history still empty and the world unchanged, so
  before any target is processed, whatever the flags and the command. A pinned-versions file
  that does not exist is no error: the run goes on with the empty mapping. Any other error
  of opening the file, and any error of decoding it, is a panic at the same point.
\<close>

theorem pinned_versions_loading:
  "((k0, x0) \<in> set m \<and> (k0 \<noteq> TrimSpace h k0 \<or> x0 \<noteq> TrimSpace h x0) \<longrightarrow>
      (\<exists>k x. (k, x) \<in> set m \<and> (k \<noteq> TrimSpace h k \<or> x \<noteq> TrimSpace h x) \<and>
         main_run h dir v f cmd (Opened (Inr m)) targets w = (Some (PinSpace k), [], w))) \<and>
   load_pins NotExist = Inr [] \<and>
   main_run h dir v f cmd NotExist targets w =
     (case targets of
        Inl p \<Rightarrow> (Some p, [], w)
      | Inr sets \<Rightarrow> run_command h dir [] v f sets cmd w) \<and>
   main_run h dir v f cmd (OpenFailed e) targets w = (Some (Fatal e), [], w) \<and>
   main_run h dir v f cmd (Opened (Inl e)) targets w = (Some (Fatal e), [], w)"
proof -
  have "\<exists>k x. (k, x) \<in> set m \<and> (k \<noteq> TrimSpace h k \<or> x \<noteq> TrimSpace h x) \<and>
         main_run h dir v f cmd (Opened (Inr m)) targets w = (Some (PinSpace k), [], w)"
    if "(k0, x0) \<in> set m" "k0 \<noteq> TrimSpace h k0 \<or> x0 \<noteq> TrimSpace h x0"
  proof -
    from check_pins_Some [OF that] obtain k x where
      "(k, x) \<in> set m" "k \<noteq> TrimSpace h k \<or> x \<noteq> TrimSpace h x"
      "check_pins h m = Some (PinSpace k)" by blast
    then show ?thesis by (auto simp: main_run_def)
  qed
  then show ?thesis by (simp add: main_run_def)
qed

theorem pinned_versions_loading_witness:
  "('' x'', ''1.0'') \<in> set [('' x'', ''1.0'')] \<and> '' x'' \<noteq> TrimSpace small_host '' x'' \<and>
   main_run small_host ''cfg'' False True commandInstall (Opened (Inr [('' x'', ''1.0'')]))
     (Inr [target ''x'' None None (Some [''echo'', ''${VER}'']) None]) 0
     = (Some (PinSpace '' x''), [], 0)"
  using pinned_versions_loading [of "'' x''" "''1.0''" "[('' x'', ''1.0'')]" small_host
      "''cfg''" False True commandInstall "Inr [target ''x'' None None (Some [''echo'', ''${VER}'']) None]" 0]
  by (simp add: small_host_def trim_ascii_def ascii_space_def)

section \<open>Failures during an update run\<close>

lemma Exec_history:
  "Exec h dir s kind ver vb w = ((out, err), evs, w') \<Longrightarrow>
   \<exists>pre. evs = pre @ [EvExec (Name s) kind ver vb out err] \<and> (\<forall>e \<in> set pre. quiet e)"
  by (auto simp: Exec_def split: prod.splits sum.splits)







lemma plan_prints:
  "plan pins cur lat sets = (evs, ups) \<Longrightarrow> \<forall>e \<in> set evs. is_print e"
  by (induction sets arbitrary: evs ups) (auto simp: Let_def split: prod.splits if_splits)




text \<open>Evaluation of the model on the small host.\<close>

lemmas run_defs = update_run_def version_loop_def gather_one_def update_one_def install_one_def
  version_one_def Exec_def Exec_resolve_def dictReplacer_Map_def exec_dict_def child_env_def
  suffixes_def small_host_def trim_ascii_def ascii_space_def index_def cmp_Or_def target_def
  Let_def


section \<open>Histories agree with the host\<close>

lemma replay_append:
  "replay h w xs = Some w1 \<Longrightarrow> replay h w (xs @ ys) = replay h w1 ys"
  by (induction h w xs rule: replay.induct) (auto split: if_splits)

lemma replay_stats: "replay h w (map EvStat ps @ evs) = replay h w evs"
  by (induction ps) simp_all

lemma Exec_resolve_error: "Exec_resolve h w dir cs kind ver = (ps, Inl e) \<Longrightarrow> e = CommandNotFound"
  by (auto simp: Exec_resolve_def Let_def split: if_splits prod.splits option.splits)

lemma Exec_replay:
  assumes "Exec h dir cs kind ver vb w = (res, evs, w')"
  shows "replay h w evs = Some w'"
proof -
  obtain ps ra where r: "Exec_resolve h w dir cs kind ver = (ps, ra)" by (metis prod.exhaust)
  show ?thesis
  proof (cases ra)
    case (Inl e)
    with r have "Exec_resolve h w dir cs kind ver = (ps, Inl e)" by simp
    then have "e = CommandNotFound" by (rule Exec_resolve_error)
    with assms r Inl show ?thesis by (auto simp: Exec_def replay_stats)
  next
    case (Inr args)
    with assms r show ?thesis
      by (auto simp: Exec_def replay_stats split: prod.splits)
  qed
qed

lemma for_each_replay:
  assumes "\<And>x st r evs st'. body x st = (r, evs, st') \<Longrightarrow> replay h (wof st) evs = Some (wof st')"
  shows "for_each body xs st = (r, evs, st') \<Longrightarrow> replay h (wof st) evs = Some (wof st')"
proof (induction xs arbitrary: st r evs st')
  case Nil
  then show ?case by simp
next
  case (Cons x xs)
  obtain r0 evs0 st0 where b: "body x st = (r0, evs0, st0)" by (cases "body x st")
  from assms [OF b] have h0: "replay h (wof st) evs0 = Some (wof st0)" .
  show ?case
  proof (cases r0)
    case (Some p)
    with b Cons.prems h0 show ?thesis by auto
  next
    case None
    obtain r1 evs1 st1 where l: "for_each body xs st0 = (r1, evs1, st1)"
      by (cases "for_each body xs st0")
    from Cons.IH [OF l] have "replay h (wof st0) evs1 = Some (wof st1)" .
    with h0 have "replay h (wof st) (evs0 @ evs1) = Some (wof st1)" by (simp add: replay_append)
    with b None l Cons.prems show ?thesis by auto
  qed
qed

lemma replay_print: "replay h w (EvPrint x # evs) = replay h w evs"
  by simp

lemma replay_snoc_print: "replay h w evs = Some w1 \<Longrightarrow> replay h w (evs @ [EvPrint x]) = Some w1"
  by (simp add: replay_append)

lemma version_one_replay:
  assumes "version_one h dir f kind wrap s st = (r, evs, st')"
  shows "replay h (snd st) evs = Some (snd st')"
proof -
  obtain m w where st: "st = (m, w)" by (cases st)
  obtain out err ev w1 where e1: "Exec h dir s kind [] False w = ((out, err), ev, w1)"
    by (metis prod.exhaust)
  note x = Exec_replay [OF e1]
  from assms st e1 have "(evs = ev \<or> (\<exists>p. evs = ev @ [EvPrint p])) \<and> snd st' = w1"
    by (auto simp: version_one_def split: option.splits if_splits)
  with x st show ?thesis by (auto simp: replay_append)
qed

lemma gather_one_replay:
  assumes "gather_one h dir v s st = (r, evs, st')"
  shows "replay h (snd (snd st)) evs = Some (snd (snd st'))"
proof -
  obtain cur lat w where st: "st = (cur, lat, w)" by (cases st)
  obtain out err ev1 w1 where e1: "Exec h dir s commandVer [] v w = ((out, err), ev1, w1)"
    by (metis prod.exhaust)
  obtain out2 err2 ev2 w2 where
    e2: "Exec h dir s commandChecklatest [] v w1 = ((out2, err2), ev2, w2)"
    by (metis prod.exhaust)
  note x1 = Exec_replay [OF e1] and x2 = Exec_replay [OF e2]
  from assms st e1 e2 have "(evs = ev1 \<and> snd (snd st') = w1) \<or> (evs = ev1 @ ev2 \<and> snd (snd st') = w2)"
    by (auto simp: gather_one_def Let_def split: option.splits)
  with x1 x2 st show ?thesis by (auto simp: replay_append)
qed

lemma update_one_replay:
  assumes "update_one h dir v t w = (r, evs, w')"
  shows "replay h w evs = Some w'"
proof -
  obtain tgt s where t: "t = (tgt, s)" by (cases t)
  obtain out err ev w1 where e1: "Exec h dir s commandUpdate tgt v w = ((out, err), ev, w1)"
    by (metis prod.exhaust)
  note x = Exec_replay [OF e1]
  from assms t e1 have "(\<exists>p. evs = EvPrint p # ev \<or> (\<exists>q. evs = EvPrint p # ev @ [EvPrint q])) \<and> w' = w1"
    by (auto simp: update_one_def split: option.splits)
  with x show ?thesis by (auto simp: replay_append)
qed

lemma replay_prints: "\<forall>e \<in> set evs. is_print e \<Longrightarrow> replay h w (evs @ rest) = replay h w rest"
proof (induction evs)
  case Nil
  show ?case by simp
next
  case (Cons e evs)
  then show ?case by (cases e) simp_all
qed

lemma install_one_replay:
  assumes "install_one h dir pins v f s w = (r, evs, w')"
  shows "replay h w evs = Some w'"
proof -
  obtain out err ev1 w1 where e1: "Exec h dir s commandVer [] False w = ((out, err), ev1, w1)"
    by (metis prod.exhaust)
  note x1 = Exec_replay [OF e1]
  show ?thesis
  proof (cases err)
    case None
    with assms e1 have "evs = EvPrint (OutInstalling (Name s)) # ev1 @
        [EvPrint (OutSkipping (Name s) (TrimSpace h out))]" "w' = w1"
      by (auto simp: install_one_def)
    with x1 show ?thesis by (simp add: replay_append)
  next
    case (Some e)
    obtain out2 err2 ev2 w2 where
      e2: "Exec h dir s commandChecklatest [] False w1 = ((out2, err2), ev2, w2)"
      by (metis prod.exhaust)
    define ver where "ver = (case err2 of None \<Rightarrow> TrimSpace h out2 | Some _ \<Rightarrow> [])"
    define warn where "warn = (case err2 of None \<Rightarrow> [] | Some e \<Rightarrow> [EvPrint (OutFetchFailed e)])"
    obtain out3 err3 ev3 w3 where
      e3: "Exec h dir s commandInstall (cmp_Or (index pins (Name s)) ver) v w2 = ((out3, err3), ev3, w3)"
      by (metis prod.exhaust)
    note x2 = Exec_replay [OF e2] and x3 = Exec_replay [OF e3]
    have pw: "\<forall>e \<in> set warn. is_print e" by (auto simp: warn_def split: option.splits)
    from assms e1 Some e2 e3 have
      "(evs = EvPrint (OutInstalling (Name s)) # ev1 @ ev2 @ warn @ ev3 \<or>
        (\<exists>p. evs = EvPrint (OutInstalling (Name s)) # ev1 @ ev2 @ warn @ ev3 @ [EvPrint p])) \<and> w' = w3"
      by (auto simp: install_one_def Let_def ver_def warn_def split: option.splits if_splits)
    moreover have "replay h w (EvPrint (OutInstalling (Name s)) # ev1 @ ev2 @ warn @ ev3 @ rest)
        = replay h w3 rest" for rest
      using x1 x2 x3 by (simp add: replay_append replay_prints [OF pw])
    ultimately show ?thesis
      by (metis append_Nil2 replay.simps(1) replay.simps(3))
  qed
qed

lemma run_command_replay:
  assumes "run_command h dir pins v f sets cmd w = (r, tr, w')"
  shows "replay h w tr = Some w'"
proof (cases cmd)
  case commandInstall
  with assms have "for_each (install_one h dir pins v f) sets w = (r, tr, w')" by simp
  from for_each_replay [where wof = "\<lambda>x. x", OF install_one_replay this] show ?thesis .
next
  case commandUpdate
  with assms have u: "update_run h dir pins v sets w = (r, tr, w')" by simp
  obtain r0 evs cur lat w1 where
    g: "for_each (gather_one h dir v) sets ([], [], w) = (r0, evs, (cur, lat, w1))"
    by (metis prod.exhaust)
  from for_each_replay [where wof = "\<lambda>x. snd (snd x)", OF gather_one_replay g]
  have g0: "replay h w evs = Some w1" by simp
  show ?thesis
  proof (cases r0)
    case (Some p)
    with u g g0 show ?thesis by (auto simp: update_run_def)
  next
    case None
    obtain pevs ups where pl: "plan pins cur lat sets = (pevs, ups)" by (cases "plan pins cur lat sets")
    obtain r2 uevs w2 where ul: "for_each (update_one h dir v) ups w1 = (r2, uevs, w2)"
      by (metis prod.exhaust)
    from for_each_replay [where wof = "\<lambda>x. x", OF update_one_replay ul]
    have "replay h w1 uevs = Some w2" .
    with g0 plan_prints [OF pl] have "replay h w (evs @ pevs @ uevs) = Some w2"
      by (simp add: replay_append replay_prints)
    with u g None pl ul show ?thesis by (auto simp: update_run_def)
  qed
next
  case commandVer
  with assms have vl: "version_loop h dir f commandVer VerFailed sets w = (r, tr, w')" by simp
  obtain r0 evs m w1 where
    l: "for_each (version_one h dir f commandVer VerFailed) sets ([], w) = (r0, evs, (m, w1))"
    by (metis prod.exhaust)
  from for_each_replay [where wof = snd, OF version_one_replay l]
  have "replay h w evs = Some w1" by simp
  with vl l show ?thesis
    by (cases r0) (auto simp: version_loop_def replay_append)
next
  case commandChecklatest
  with assms have vl: "version_loop h dir f commandChecklatest ChecklatestFailed sets w = (r, tr, w')"
    by simp
  obtain r0 evs m w1 where
    l: "for_each (version_one h dir f commandChecklatest ChecklatestFailed) sets ([], w)
        = (r0, evs, (m, w1))"
    by (metis prod.exhaust)
  from for_each_replay [where wof = snd, OF version_one_replay l]
  have "replay h w evs = Some w1" by simp
  with vl l show ?thesis
    by (cases r0) (auto simp: version_loop_def replay_append)
qed

lemma replay_launch_split:
  "replay h w (pre @ EvLaunch args env m # rest) = Some w' \<Longrightarrow>
   \<exists>w1. replay h w pre = Some w1 \<and> replay h w1 (EvLaunch args env m # rest) = Some w'"
  by (induction h w pre rule: replay.induct) (auto split: if_splits)

section \<open>The version map of a forced run\<close>

lemma quiet_not_exec: "quiet e \<Longrightarrow> e \<noteq> EvExec n kd ver vb out err"
  by (cases e) simp_all

lemma print_not_exec: "is_print e \<Longrightarrow> e \<noteq> EvExec n kd ver vb out err"
  by (cases e) simp_all

lemma version_one_forced:
  assumes "version_one h dir True kind wrap s (m, w) = (r0, evs0, st1)"
  shows "\<exists>out err w1 pre post. r0 = None \<and>
     st1 = (AList.update (Name s) (TrimSpace h out) m, w1) \<and>
     evs0 = pre @ [EvExec (Name s) kind [] False out err] @ post \<and>
     (\<forall>e \<in> set pre. quiet e) \<and> (\<forall>e \<in> set post. is_print e)"
proof -
  obtain out err ev w1 where e1: "Exec h dir s kind [] False w = ((out, err), ev, w1)"
    by (metis prod.exhaust)
  from Exec_history [OF e1] obtain pre where
    p: "ev = pre @ [EvExec (Name s) kind [] False out err]" "\<forall>e \<in> set pre. quiet e" by blast
  show ?thesis
  proof (cases err)
    case None
    with assms e1 have "r0 = None" "st1 = (AList.update (Name s) (TrimSpace h out) m, w1)"
      "evs0 = ev @ []" by (auto simp: version_one_def)
    with p show ?thesis by fastforce
  next
    case (Some e)
    with assms e1 have "r0 = None" "st1 = (AList.update (Name s) (TrimSpace h out) m, w1)"
      "evs0 = ev @ [EvPrint (OutWarn (wrap (Name s) e))]" by (auto simp: version_one_def)
    with p show ?thesis by fastforce
  qed
qed

lemma version_loop_forced:
  assumes "for_each (version_one h dir True kind wrap) sets (m, w) = (r, evs, (m', w'))"
    and "distinct (map Name sets)"
  shows "r = None \<and>
     (\<forall>n. n \<notin> Name ` set sets \<longrightarrow> map_of m' n = map_of m n) \<and>
     (\<forall>s \<in> set sets. \<exists>out err. EvExec (Name s) kind [] False out err \<in> set evs) \<and>
     (\<forall>n kd ver vb out err. EvExec n kd ver vb out err \<in> set evs \<longrightarrow>
        n \<in> Name ` set sets \<and> kd = kind \<and> ver = [] \<and> vb = False \<and>
        map_of m' n = Some (TrimSpace h out))"
  using assms
proof (induction sets arbitrary: m w r evs m' w')
  case Nil
  then show ?case by simp
next
  case (Cons s ss)
  obtain r0 evs0 st1 where b: "version_one h dir True kind wrap s (m, w) = (r0, evs0, st1)"
    by (metis prod.exhaust)
  from version_one_forced [OF b] obtain out err w1 pre post where
    r0: "r0 = None" and st1: "st1 = (AList.update (Name s) (TrimSpace h out) m, w1)"
    and evs0: "evs0 = pre @ [EvExec (Name s) kind [] False out err] @ post"
    and pre: "\<forall>e \<in> set pre. quiet e" and post: "\<forall>e \<in> set post. is_print e" by blast
  obtain r1 evs1 m1 w2 where
    l: "for_each (version_one h dir True kind wrap) ss
          (AList.update (Name s) (TrimSpace h out) m, w1) = (r1, evs1, (m1, w2))"
    by (metis prod.exhaust)
  from Cons.prems(1) b r0 st1 l have res: "r = r1" "evs = evs0 @ evs1" "m' = m1" by auto
  from Cons.prems(2) have d: "distinct (map Name ss)" and fresh: "Name s \<notin> Name ` set ss" by auto
  note ih = Cons.IH [OF l d]
  from ih fresh have here: "map_of m1 (Name s) = Some (TrimSpace h out)"
    by (simp add: update_conv')
  have only: "n = Name s \<and> kd = kind \<and> ver = [] \<and> vb = False \<and> out' = out"
    if "EvExec n kd ver vb out' err' \<in> set evs0" for n kd ver vb out' err'
    using that evs0 pre post quiet_not_exec print_not_exec by auto
  have 1: "r = None" using ih res by simp
  have 2: "map_of m' n = map_of m n" if "n \<notin> Name ` set (s # ss)" for n
  proof -
    from that have "n \<notin> Name ` set ss" "n \<noteq> Name s" by auto
    with ih res show ?thesis by (simp add: update_conv')
  qed
  have 3: "\<exists>out err. EvExec (Name t) kind [] False out err \<in> set evs" if "t \<in> set (s # ss)" for t
  proof (cases "t = s")
    case True
    with evs0 res show ?thesis by auto
  next
    case False
    with that have "t \<in> set ss" by simp
    with ih res show ?thesis by fastforce
  qed
  have 4: "n \<in> Name ` set (s # ss) \<and> kd = kind \<and> ver = [] \<and> vb = False \<and>
        map_of m' n = Some (TrimSpace h out')"
    if "EvExec n kd ver vb out' err' \<in> set evs" for n kd ver vb out' err'
  proof (cases "EvExec n kd ver vb out' err' \<in> set evs0")
    case True
    from only [OF True] here res show ?thesis by simp
  next
    case False
    with that res have in1: "EvExec n kd ver vb out' err' \<in> set evs1" by simp
    from ih have q: "n \<in> Name ` set ss \<and> kd = kind \<and> ver = [] \<and> vb = False \<and>
        map_of m1 n = Some (TrimSpace h out)"
      if "EvExec n kd ver vb out err \<in> set evs1" for n kd ver vb out err
      using that by blast
    from q [OF in1] res show ?thesis by simp
  qed
  from 1 2 3 4 show ?case by blast
qed

text \<open>
  Claim C10. In a \<open>ver\<close> or a \<open>checklatest\<close> run with the force flag set, over targets of
  distinct names, the run does not panic and ends by printing the version map. The keys of
  the map are the names of the targets. Every target has had its command run, and the entry
  of a target is the trimmed text that its \<open>Exec\<close> returned, whether it failed or not. The
  history agrees with the host, so that text is what \<open>Run\<close> captured: wherever the history
  has a launch and the return of an \<open>Exec\<close> for a target, the entry of the target is the
  trimmed output of \<open>Run\<close> for the launched vector in the world reached at that point, also
  when \<open>Run\<close> gives an error; a target whose command was not found has the empty entry.
\<close>

theorem version_map_complete:
  assumes "kind = commandVer \<or> kind = commandChecklatest"
    and "run_command h dir pins v True sets kind w = (r, tr, w')"
    and "distinct (map Name sets)"
  shows "r = None \<and> replay h w tr = Some w' \<and>
     (\<exists>m. tr \<noteq> [] \<and> last tr = EvPrint (OutJSON m) \<and>
        dom (map_of m) = Name ` set sets \<and>
        (\<forall>s \<in> set sets. \<exists>out err. EvExec (Name s) kind [] False out err \<in> set tr) \<and>
        (\<forall>n out err. EvExec n kind [] False out err \<in> set tr \<longrightarrow>
           map_of m n = Some (TrimSpace h out)) \<and>
        (\<forall>pre args env mr n ver vb out err post.
           tr = pre @ EvLaunch args env mr # EvExec n kind ver vb out err # post \<longrightarrow>
           (\<exists>w1. replay h w pre = Some w1 \<and> fst (Run h args env mr w1) = (out, err) \<and>
              map_of m n = Some (TrimSpace h (fst (fst (Run h args env mr w1)))))))"
proof -
  obtain wrap where
    run: "version_loop h dir True kind wrap sets w = (r, tr, w')"
    using assms(1,2) by auto
  obtain r0 evs m w1 where
    l: "for_each (version_one h dir True kind wrap) sets ([], w) = (r0, evs, (m, w1))"
    by (metis prod.exhaust)
  note v = version_loop_forced [OF l assms(3)]
  from v have r0: "r0 = None" by simp
  with run l have res: "r = None" "tr = evs @ [EvPrint (OutJSON m)]"
    by (auto simp: version_loop_def)
  have rp: "replay h w tr = Some w'" using assms(2) by (rule run_command_replay)
  have "n \<in> dom (map_of m) \<longleftrightarrow> n \<in> Name ` set sets" for n
  proof (cases "n \<in> Name ` set sets")
    case True
    then obtain s where "s \<in> set sets" "n = Name s" by blast
    with v obtain out err where "EvExec n kind [] False out err \<in> set evs" by blast
    with v have "map_of m n = Some (TrimSpace h out)" by blast
    with True show ?thesis by blast
  next
    case False
    with v have "map_of m n = map_of [] n" by blast
    with False show ?thesis by auto
  qed
  then have dom: "dom (map_of m) = Name ` set sets" by blast
  have a: "\<exists>out err. EvExec (Name s) kind [] False out err \<in> set tr" if "s \<in> set sets" for s
    using v that res by fastforce
  have b: "map_of m n = Some (TrimSpace h out)"
    if "EvExec n kd ver vb out err \<in> set tr" for n kd ver vb out err
  proof -
    from that res have "EvExec n kd ver vb out err \<in> set evs" by simp
    with v show ?thesis by blast
  qed
  have c: "\<exists>w1. replay h w pre = Some w1 \<and> fst (Run h args env mr w1) = (out, err) \<and>
              map_of m n = Some (TrimSpace h (fst (fst (Run h args env mr w1))))"
    if sp: "tr = pre @ EvLaunch args env mr # EvExec n kind ver vb out err # post"
    for pre args env mr n ver vb out err post
  proof -
    from rp sp have "replay h w (pre @ EvLaunch args env mr # EvExec n kind ver vb out err # post)
        = Some w'" by simp
    from replay_launch_split [OF this] obtain w1 where
      w1: "replay h w pre = Some w1"
        "replay h w1 (EvLaunch args env mr # EvExec n kind ver vb out err # post) = Some w'"
      by blast
    from w1(2) have run1: "fst (Run h args env mr w1) = (out, err)" by (simp split: if_splits)
    from sp have "EvExec n kind ver vb out err \<in> set tr" by simp
    from b [OF this] run1 w1(1) show ?thesis by simp
  qed
  from res rp dom a b c show ?thesis by (auto simp del: replay.simps)
qed

theorem version_map_complete_witness:
  "(commandVer = commandVer \<or> commandVer = commandChecklatest) \<and>
   distinct (map Name [target ''a'' (Some [''echo'', ''1.0'']) None None None,
      target ''b'' (Some [''fail'', ''1.1-broken '']) None None None,
      target ''c'' None None None None]) \<and>
   run_command small_host ''cfg'' [] False True
     [target ''a'' (Some [''echo'', ''1.0'']) None None None,
      target ''b'' (Some [''fail'', ''1.1-broken '']) None None None,
      target ''c'' None None None None] commandVer 0
   = (None,
      [EvLaunch [''echo'', ''1.0''] [''HOME=/root'', ''OS=linux'', ''ARCH=amd64''] False,
       EvExec ''a'' commandVer [] False (''1.0'' @ [CHR 0x0A]) None,
       EvLaunch [''fail'', ''1.1-broken ''] [''HOME=/root'', ''OS=linux'', ''ARCH=amd64''] False,
       EvExec ''b'' commandVer [] False (''1.1-broken '' @ [CHR 0x0A])
         (Some (ProcessError ''exit status 1'')),
       EvPrint (OutWarn (VerFailed ''b'' (ProcessError ''exit status 1''))),
       EvStat ''cfg/c/ver'', EvStat ''cfg/c/ver.sh'', EvStat ''cfg/c/ver.exe'',
       EvStat ''cfg/c/ver.bat'', EvStat ''cfg/c/ver.ps1'',
       EvExec ''c'' commandVer [] False [] (Some CommandNotFound),
       EvPrint (OutWarn (VerFailed ''c'' CommandNotFound)),
       EvPrint (OutJSON [(''a'', ''1.0''), (''b'', ''1.1-broken''), (''c'', [])])],
      2) \<and>
   fst (Run small_host [''fail'', ''1.1-broken ''] [''HOME=/root'', ''OS=linux'', ''ARCH=amd64'']
     False 1) = (''1.1-broken '' @ [CHR 0x0A], Some (ProcessError ''exit status 1'')) \<and>
   map_of [(''a'', ''1.0''), (''b'', ''1.1-broken''), (''c'', [])] ''b''
     = Some (TrimSpace small_host (''1.1-broken '' @ [CHR 0x0A]))"
  (is "?k \<and> ?d \<and> ?run = ?res \<and> _")
proof -
  have k: ?k by simp
  have d: ?d by (simp add: target_def)
  have run: "?run = ?res" by (simp add: run_defs)
  from version_map_complete [OF k run d] k d run show ?thesis
    by (simp add: small_host_def trim_ascii_def ascii_space_def)
qed

section \<open>The decisions of an update run\<close>

lemma for_each_events:
  assumes "\<And>x st r evs st'. x \<in> set xs \<Longrightarrow> body x st = (r, evs, st') \<Longrightarrow> \<forall>e \<in> set evs. P x e"
  shows "for_each body xs st = (r, evs, st') \<Longrightarrow> \<forall>e \<in> set evs. \<exists>x \<in> set xs. P x e"
  using assms
proof (induction xs arbitrary: st r evs st')
  case Nil
  then show ?case by simp
next
  case (Cons x xs)
  obtain r0 evs0 st0 where b: "body x st = (r0, evs0, st0)" by (cases "body x st")
  from Cons.prems(2) [OF _ b] have h0: "\<forall>e \<in> set evs0. P x e" by simp
  show ?case
  proof (cases r0)
    case (Some p)
    with b Cons.prems(1) h0 show ?thesis by auto
  next
    case None
    obtain r1 evs1 st1 where l: "for_each body xs st0 = (r1, evs1, st1)"
      by (cases "for_each body xs st0")
    have "\<forall>e \<in> set evs1. \<exists>x \<in> set xs. P x e"
      using l Cons.prems(2) by (intro Cons.IH) auto
    with b None l Cons.prems(1) h0 show ?thesis by auto
  qed
qed

lemma gather_one_events:
  assumes "gather_one h dir v s st = (r, evs, st')"
  shows "\<forall>e \<in> set evs. quiet e \<or> is_exec (Name s) commandVer e \<or> is_exec (Name s) commandChecklatest e"
proof -
  obtain cur lat w where st: "st = (cur, lat, w)" by (cases st)
  obtain out err ev1 w1 where e1: "Exec h dir s commandVer [] v w = ((out, err), ev1, w1)"
    by (metis prod.exhaust)
  obtain out2 err2 ev2 w2 where
    e2: "Exec h dir s commandChecklatest [] v w1 = ((out2, err2), ev2, w2)"
    by (metis prod.exhaust)
  from Exec_history [OF e1] have 1: "\<forall>e \<in> set ev1. quiet e \<or> is_exec (Name s) commandVer e"
    by auto
  from Exec_history [OF e2] have 2: "\<forall>e \<in> set ev2. quiet e \<or> is_exec (Name s) commandChecklatest e"
    by auto
  from assms st e1 e2 have "evs = ev1 \<or> evs = ev1 @ ev2"
    by (auto simp: gather_one_def Let_def split: option.splits)
  with 1 2 show ?thesis by auto
qed

lemma gather_one_ok:
  assumes "gather_one h dir v s (cur, lat, w) = (None, evs, st')"
  shows "\<exists>out out2 w2. st' = (AList.update (Name s) (TrimSpace h out) cur,
        AList.update (Name s) (TrimSpace h out2) lat, w2) \<and>
     EvExec (Name s) commandVer [] v out None \<in> set evs \<and>
     EvExec (Name s) commandChecklatest [] v out2 None \<in> set evs"
proof -
  obtain out err ev1 w1 where e1: "Exec h dir s commandVer [] v w = ((out, err), ev1, w1)"
    by (metis prod.exhaust)
  obtain out2 err2 ev2 w2 where
    e2: "Exec h dir s commandChecklatest [] v w1 = ((out2, err2), ev2, w2)"
    by (metis prod.exhaust)
  from assms e1 e2 have ok: "err = None" "err2 = None" "evs = ev1 @ ev2"
    "st' = (AList.update (Name s) (TrimSpace h out) cur,
        AList.update (Name s) (TrimSpace h out2) lat, w2)"
    by (auto simp: gather_one_def Let_def split: option.splits)
  from Exec_history [OF e1] ok have "EvExec (Name s) commandVer [] v out None \<in> set evs" by auto
  moreover from Exec_history [OF e2] ok
  have "EvExec (Name s) commandChecklatest [] v out2 None \<in> set evs" by auto
  ultimately show ?thesis using ok by blast
qed

lemma gather_loop_ok:
  assumes "for_each (gather_one h dir v) sets (cur, lat, w) = (None, evs, (cur', lat', w'))"
    and "distinct (map Name sets)"
  shows "(\<forall>n. n \<notin> Name ` set sets \<longrightarrow> map_of cur' n = map_of cur n \<and> map_of lat' n = map_of lat n) \<and>
     (\<forall>s \<in> set sets. \<exists>out out2.
        EvExec (Name s) commandVer [] v out None \<in> set evs \<and>
        map_of cur' (Name s) = Some (TrimSpace h out) \<and>
        EvExec (Name s) commandChecklatest [] v out2 None \<in> set evs \<and>
        map_of lat' (Name s) = Some (TrimSpace h out2))"
  using assms
proof (induction sets arbitrary: cur lat w evs)
  case Nil
  then show ?case by simp
next
  case (Cons s ss)
  obtain r0 evs0 st1 where b: "gather_one h dir v s (cur, lat, w) = (r0, evs0, st1)"
    by (metis prod.exhaust)
  with Cons.prems(1) have r0: "r0 = None" by (auto split: option.splits prod.splits)
  from gather_one_ok [OF b [unfolded r0]] obtain out out2 w2 where
    st1: "st1 = (AList.update (Name s) (TrimSpace h out) cur,
        AList.update (Name s) (TrimSpace h out2) lat, w2)"
    and ev: "EvExec (Name s) commandVer [] v out None \<in> set evs0"
      "EvExec (Name s) commandChecklatest [] v out2 None \<in> set evs0" by blast
  obtain r1 evs1 st2 where
    l0: "for_each (gather_one h dir v) ss st1 = (r1, evs1, st2)" by (metis prod.exhaust)
  with Cons.prems(1) b r0 have res: "r1 = None" "evs = evs0 @ evs1" "st2 = (cur', lat', w')"
    by auto
  from l0 res st1 have l: "for_each (gather_one h dir v) ss
      (AList.update (Name s) (TrimSpace h out) cur, AList.update (Name s) (TrimSpace h out2) lat, w2)
      = (None, evs1, (cur', lat', w'))" by simp
  from Cons.prems(2) have d: "distinct (map Name ss)" and fresh: "Name s \<notin> Name ` set ss" by auto
  note ih = Cons.IH [OF l d]
  from ih fresh have here: "map_of cur' (Name s) = Some (TrimSpace h out)"
    "map_of lat' (Name s) = Some (TrimSpace h out2)"
    by (simp_all add: update_conv')
  have 1: "map_of cur' n = map_of cur n \<and> map_of lat' n = map_of lat n"
    if "n \<notin> Name ` set (s # ss)" for n
  proof -
    from that have "n \<notin> Name ` set ss" "n \<noteq> Name s" by auto
    with ih show ?thesis by (simp add: update_conv')
  qed
  have 2: "\<exists>out out2.
        EvExec (Name t) commandVer [] v out None \<in> set evs \<and>
        map_of cur' (Name t) = Some (TrimSpace h out) \<and>
        EvExec (Name t) commandChecklatest [] v out2 None \<in> set evs \<and>
        map_of lat' (Name t) = Some (TrimSpace h out2)" if "t \<in> set (s # ss)" for t
  proof (cases "t = s")
    case True
    with ev here res show ?thesis by auto
  next
    case False
    with that have "t \<in> set ss" by simp
    with ih obtain o1 o2 where
      "EvExec (Name t) commandVer [] v o1 None \<in> set evs1"
      "map_of cur' (Name t) = Some (TrimSpace h o1)"
      "EvExec (Name t) commandChecklatest [] v o2 None \<in> set evs1"
      "map_of lat' (Name t) = Some (TrimSpace h o2)" by blast
    with res show ?thesis by auto
  qed
  from 1 2 show ?case by blast
qed

lemma plan_Cons:
  "plan pins cur lat (x # xs) =
     (EvPrint (OutPlan (Name x) (index cur (Name x))
          (cmp_Or (index pins (Name x)) (index lat (Name x)))) #
        (if index pins (Name x) \<noteq> [] then [EvPrint OutPinned] else []) @
        [EvPrint (if index cur (Name x) = cmp_Or (index pins (Name x)) (index lat (Name x))
           then OutNoUpdate else OutNewline)] @ fst (plan pins cur lat xs),
      (if index cur (Name x) = cmp_Or (index pins (Name x)) (index lat (Name x)) then []
       else [(cmp_Or (index pins (Name x)) (index lat (Name x)), x)]) @ snd (plan pins cur lat xs))"
  by (cases "plan pins cur lat xs") (simp add: Let_def)

lemma plan_lines:
  "EvPrint (OutPlan n c t) \<in> set (fst (plan pins cur lat sets)) \<Longrightarrow>
   n \<in> Name ` set sets \<and> c = index cur n \<and> t = cmp_Or (index pins n) (index lat n)"
proof (induction sets)
  case Nil
  then show ?case by simp
next
  case (Cons x xs)
  from Cons.prems have "(n = Name x \<and> c = index cur n \<and> t = cmp_Or (index pins n) (index lat n)) \<or>
      EvPrint (OutPlan n c t) \<in> set (fst (plan pins cur lat xs))"
    unfolding plan_Cons by (auto split: if_splits)
  with Cons.IH show ?case by auto
qed

lemma plan_all_lines:
  "s \<in> set sets \<Longrightarrow>
   EvPrint (OutPlan (Name s) (index cur (Name s))
      (cmp_Or (index pins (Name s)) (index lat (Name s)))) \<in> set (fst (plan pins cur lat sets))"
proof (induction sets)
  case Nil
  then show ?case by simp
next
  case (Cons x xs)
  then show ?case unfolding plan_Cons by auto
qed

lemma plan_queue:
  "(t, s) \<in> set (snd (plan pins cur lat sets)) \<Longrightarrow>
   s \<in> set sets \<and> t = cmp_Or (index pins (Name s)) (index lat (Name s)) \<and>
   index cur (Name s) \<noteq> t"
proof (induction sets)
  case Nil
  then show ?case by simp
next
  case (Cons x xs)
  from Cons.prems have "(s = x \<and> t = cmp_Or (index pins (Name s)) (index lat (Name s)) \<and>
      index cur (Name s) \<noteq> t) \<or> (t, s) \<in> set (snd (plan pins cur lat xs))"
    unfolding plan_Cons by (auto split: if_splits)
  with Cons.IH show ?case by auto
qed

lemma plan_prints_fst: "\<forall>e \<in> set (fst (plan pins cur lat sets)). is_print e"
proof (induction sets)
  case Nil
  show ?case by simp
next
  case (Cons x xs)
  then show ?case unfolding plan_Cons by auto
qed

lemma plan_no_update_line:
  "s \<in> set sets \<Longrightarrow>
   index cur (Name s) = cmp_Or (index pins (Name s)) (index lat (Name s)) \<Longrightarrow>
   sublist (EvPrint (OutPlan (Name s) (index cur (Name s))
               (cmp_Or (index pins (Name s)) (index lat (Name s)))) #
            (if index pins (Name s) \<noteq> [] then [EvPrint OutPinned] else []) @
            [EvPrint OutNoUpdate]) (fst (plan pins cur lat sets))"
proof (induction sets)
  case Nil
  then show ?case by simp
next
  case (Cons x xs)
  let ?line = "\<lambda>y. EvPrint (OutPlan (Name y) (index cur (Name y))
               (cmp_Or (index pins (Name y)) (index lat (Name y)))) #
            (if index pins (Name y) \<noteq> [] then [EvPrint OutPinned] else [])"
  let ?eq = "index cur (Name x) = cmp_Or (index pins (Name x)) (index lat (Name x))"
  let ?evs1 = "fst (plan pins cur lat xs)"
  have pevs: "fst (plan pins cur lat (x # xs))
      = ?line x @ [EvPrint (if ?eq then OutNoUpdate else OutNewline)] @ ?evs1"
    unfolding plan_Cons by simp
  show ?case
  proof (cases "s = x")
    case True
    with Cons.prems(2) pevs
    have "fst (plan pins cur lat (x # xs)) = [] @ (?line s @ [EvPrint OutNoUpdate]) @ ?evs1"
      by simp
    then have "sublist (?line s @ [EvPrint OutNoUpdate]) (fst (plan pins cur lat (x # xs)))"
      unfolding sublist_def by blast
    then show ?thesis by simp
  next
    case False
    with Cons.prems(1) have "s \<in> set xs" by simp
    from Cons.IH [OF this Cons.prems(2)]
    have "sublist (?line s @ [EvPrint OutNoUpdate]) ?evs1" by simp
    then obtain ps ss where "?evs1 = ps @ (?line s @ [EvPrint OutNoUpdate]) @ ss"
      unfolding sublist_def by blast
    with pevs have "fst (plan pins cur lat (x # xs))
        = (?line x @ [EvPrint (if ?eq then OutNoUpdate else OutNewline)] @ ps) @
          (?line s @ [EvPrint OutNoUpdate]) @ ss" by simp
    then have "sublist (?line s @ [EvPrint OutNoUpdate]) (fst (plan pins cur lat (x # xs)))"
      unfolding sublist_def by blast
    then show ?thesis by simp
  qed
qed

lemma update_one_events:
  assumes "update_one h dir v t w = (r, evs, w')"
  shows "\<forall>e \<in> set evs. quiet e \<or> e = EvPrint (OutUpdating (Name (snd t))) \<or>
     e = EvPrint (OutUpdated (Name (snd t))) \<or>
     (\<exists>out err. e = EvExec (Name (snd t)) commandUpdate (fst t) v out err)"
proof -
  obtain tgt s where t: "t = (tgt, s)" by (cases t)
  obtain out err ev w1 where e1: "Exec h dir s commandUpdate tgt v w = ((out, err), ev, w1)"
    by (metis prod.exhaust)
  from Exec_history [OF e1] have
    "\<forall>e \<in> set ev. quiet e \<or> (\<exists>out err. e = EvExec (Name s) commandUpdate tgt v out err)" by auto
  moreover from assms t e1 have "evs = EvPrint (OutUpdating (Name s)) # ev \<or>
      evs = EvPrint (OutUpdating (Name s)) # ev @ [EvPrint (OutUpdated (Name s))]"
    by (auto simp: update_one_def split: option.splits)
  ultimately show ?thesis using t by auto
qed

lemma is_exec_kind: "is_exec n k e \<Longrightarrow> is_exec m k' e \<Longrightarrow> k = k'"
  by (cases e) auto

lemma quiet_not_is_exec: "quiet e \<Longrightarrow> \<not> is_exec m k e"
  by (cases e) auto

lemma print_not_is_exec: "is_print e \<Longrightarrow> \<not> is_exec m k e"
  by (cases e) auto

lemma quiet_not_print: "quiet e \<Longrightarrow> \<not> is_print e"
  by (cases e) auto

lemma is_exec_not_print: "is_exec m k e \<Longrightarrow> \<not> is_print e"
  by (cases e) auto

lemma gather_loop_events:
  assumes "for_each (gather_one h dir v) sets st = (r, evs, st')" and "e \<in> set evs"
  shows "\<not> is_print e \<and> \<not> is_exec m commandUpdate e"
proof -
  have "\<forall>e \<in> set evs. \<exists>s \<in> set sets. quiet e \<or> is_exec (Name s) commandVer e \<or>
      is_exec (Name s) commandChecklatest e"
    by (rule for_each_events [OF gather_one_events assms(1)])
  then have "\<exists>s \<in> set sets. quiet e \<or> is_exec (Name s) commandVer e \<or>
      is_exec (Name s) commandChecklatest e" using assms(2) by (rule bspec)
  then obtain s where "s \<in> set sets" and "quiet e \<or> is_exec (Name s) commandVer e \<or>
      is_exec (Name s) commandChecklatest e" ..
  then consider (q) "quiet e" | (a) "is_exec (Name s) commandVer e"
    | (b) "is_exec (Name s) commandChecklatest e" by blast
  then show ?thesis
  proof cases
    case q
    then show ?thesis by (cases e) simp_all
  next
    case a
    then show ?thesis by (cases e) simp_all
  next
    case b
    then show ?thesis by (cases e) simp_all
  qed
qed

lemma update_loop_events:
  assumes "for_each (update_one h dir v) ups w = (r, evs, w')" and "e \<in> set evs"
  shows "e \<noteq> EvPrint (OutPlan n c t) \<and>
     (is_exec m commandUpdate e \<longrightarrow>
        (\<exists>x \<in> set ups. \<exists>out err. e = EvExec m commandUpdate (fst x) v out err \<and> m = Name (snd x)))"
proof -
  have "\<forall>e \<in> set evs. \<exists>x \<in> set ups. quiet e \<or> e = EvPrint (OutUpdating (Name (snd x))) \<or>
       e = EvPrint (OutUpdated (Name (snd x))) \<or>
       (\<exists>out err. e = EvExec (Name (snd x)) commandUpdate (fst x) v out err)"
    by (rule for_each_events [OF update_one_events assms(1)])
  then have "\<exists>x \<in> set ups. quiet e \<or> e = EvPrint (OutUpdating (Name (snd x))) \<or>
       e = EvPrint (OutUpdated (Name (snd x))) \<or>
       (\<exists>out err. e = EvExec (Name (snd x)) commandUpdate (fst x) v out err)"
    using assms(2) by (rule bspec)
  then obtain x where x: "x \<in> set ups" and c: "quiet e \<or> e = EvPrint (OutUpdating (Name (snd x))) \<or>
       e = EvPrint (OutUpdated (Name (snd x))) \<or>
       (\<exists>out err. e = EvExec (Name (snd x)) commandUpdate (fst x) v out err)" ..
  have 1: "e \<noteq> EvPrint (OutPlan n c t)"
  proof
    assume "e = EvPrint (OutPlan n c t)"
    with c show False by simp
  qed
  have 2: "\<exists>x \<in> set ups. \<exists>out err. e = EvExec m commandUpdate (fst x) v out err \<and> m = Name (snd x)"
    if "is_exec m commandUpdate e"
  proof -
    from c that have "\<exists>out err. e = EvExec (Name (snd x)) commandUpdate (fst x) v out err"
      by (cases e) simp_all
    then obtain out err where e: "e = EvExec (Name (snd x)) commandUpdate (fst x) v out err"
      by blast
    with that have "m = Name (snd x)" by simp
    with e x show ?thesis by blast
  qed
  from 1 2 show ?thesis by blast
qed

lemma update_run_phases:
  assumes "update_run h dir pins v sets w = (r, tr, w')"
    and "EvPrint (OutPlan n c t) \<in> set tr"
  shows "\<exists>evs cur lat w1 uevs.
     for_each (gather_one h dir v) sets ([], [], w) = (None, evs, (cur, lat, w1)) \<and>
     for_each (update_one h dir v) (snd (plan pins cur lat sets)) w1 = (r, uevs, w') \<and>
     tr = evs @ fst (plan pins cur lat sets) @ uevs \<and>
     EvPrint (OutPlan n c t) \<in> set (fst (plan pins cur lat sets))"
proof -
  obtain r0 evs cur lat w1 where
    g: "for_each (gather_one h dir v) sets ([], [], w) = (r0, evs, (cur, lat, w1))"
    by (metis prod.exhaust)
  have notg: "EvPrint (OutPlan n c t) \<notin> set evs"
  proof
    assume "EvPrint (OutPlan n c t) \<in> set evs"
    from gather_loop_events [OF g this] show False by simp
  qed
  show ?thesis
  proof (cases r0)
    case (Some p)
    with assms(1) g have "tr = evs" by (simp add: update_run_def)
    with assms(2) notg show ?thesis by simp
  next
    case None
    obtain r2 uevs w2 where
      u: "for_each (update_one h dir v) (snd (plan pins cur lat sets)) w1 = (r2, uevs, w2)"
      by (metis prod.exhaust)
    have notu: "EvPrint (OutPlan n c t) \<notin> set uevs"
    proof
      assume "EvPrint (OutPlan n c t) \<in> set uevs"
      from update_loop_events [OF u this, where n = n and c = c and t = t] show False by simp
    qed
    from assms(1) g None u have res: "r = r2" "tr = evs @ fst (plan pins cur lat sets) @ uevs" "w' = w2"
      by (simp_all add: update_run_def split: prod.splits)
    from res(2) assms(2) notg notu have "EvPrint (OutPlan n c t) \<in> set (fst (plan pins cur lat sets))"
      by simp
    with g None u res show ?thesis by blast
  qed
qed

text \<open>
  Claim C2, as amended. In an update run over targets of distinct names, the target version
  of a target, which is the one its line shows and the one any \<open>update\<close> of that target is
  run with, is the pinned version whenever the pinned-versions mapping has an entry for the
  name that is not the empty string, and otherwise (no entry, or the empty string as entry)
  the trimmed output of the target's \<open>checklatest\<close>. Every target has such a line once both
  commands of every target have succeeded, and the history agrees with the host.
\<close>

theorem effective_target_version:
  assumes "run_command h dir pins v f sets commandUpdate w = (r, tr, w')"
    and "distinct (map Name sets)"
    and "EvPrint (OutPlan n cur tgt) \<in> set tr"
  shows "replay h w tr = Some w' \<and> n \<in> Name ` set sets \<and>
     (\<forall>p. map_of pins n = Some p \<and> p \<noteq> [] \<longrightarrow> tgt = p) \<and>
     (map_of pins n = None \<or> map_of pins n = Some [] \<longrightarrow>
        (\<exists>out. EvExec n commandChecklatest [] v out None \<in> set tr \<and> tgt = TrimSpace h out)) \<and>
     (\<forall>ver vb out err. EvExec n commandUpdate ver vb out err \<in> set tr \<longrightarrow> ver = tgt) \<and>
     (\<forall>s \<in> set sets. \<exists>c t. EvPrint (OutPlan (Name s) c t) \<in> set tr)"
proof -
  from assms(1) have u: "update_run h dir pins v sets w = (r, tr, w')" by simp
  from update_run_phases [OF u assms(3)] obtain evs cur' lat w1 uevs where
    g: "for_each (gather_one h dir v) sets ([], [], w) = (None, evs, (cur', lat, w1))"
    and ul: "for_each (update_one h dir v) (snd (plan pins cur' lat sets)) w1 = (r, uevs, w')"
    and tr: "tr = evs @ fst (plan pins cur' lat sets) @ uevs"
    and line: "EvPrint (OutPlan n cur tgt) \<in> set (fst (plan pins cur' lat sets))"
    by blast
  have rp: "replay h w tr = Some w'" using assms(1) by (rule run_command_replay)
  from plan_lines [OF line] have n: "n \<in> Name ` set sets"
    and tgt: "tgt = cmp_Or (index pins n) (index lat n)" by simp_all
  from n obtain s where s: "s \<in> set sets" "n = Name s" by blast
  from gather_loop_ok [OF g assms(2)] s(1) obtain out2 where
    cl0: "EvExec (Name s) commandChecklatest [] v out2 None \<in> set evs"
      "map_of lat (Name s) = Some (TrimSpace h out2)" by blast
  with s(2) have cl: "EvExec n commandChecklatest [] v out2 None \<in> set evs"
      "map_of lat n = Some (TrimSpace h out2)" by simp_all
  have 1: "tgt = p" if "map_of pins n = Some p \<and> p \<noteq> []" for p
    using that tgt by (simp add: cmp_Or_def index_def)
  have 2: "\<exists>out. EvExec n commandChecklatest [] v out None \<in> set tr \<and> tgt = TrimSpace h out"
    if "map_of pins n = None \<or> map_of pins n = Some []"
  proof -
    from that have "index pins n = []" by (auto simp: index_def)
    with tgt cl(2) have "tgt = TrimSpace h out2" by (simp add: cmp_Or_def index_def)
    moreover from cl(1) tr have "EvExec n commandChecklatest [] v out2 None \<in> set tr" by simp
    ultimately show ?thesis by blast
  qed
  have 3: "ver = tgt" if e: "EvExec n commandUpdate ver vb out err \<in> set tr" for ver vb out err
  proof -
    have x: "is_exec n commandUpdate (EvExec n commandUpdate ver vb out err)" by simp
    have "EvExec n commandUpdate ver vb out err \<notin> set evs"
    proof
      assume "EvExec n commandUpdate ver vb out err \<in> set evs"
      from gather_loop_events [OF g this, of n] x show False by simp
    qed
    moreover have "EvExec n commandUpdate ver vb out err \<notin> set (fst (plan pins cur' lat sets))"
    proof
      assume "EvExec n commandUpdate ver vb out err \<in> set (fst (plan pins cur' lat sets))"
      with plan_prints_fst [of pins cur' lat sets] have "is_print (EvExec n commandUpdate ver vb out err)"
        by (rule bspec)
      then show False by simp
    qed
    ultimately have "EvExec n commandUpdate ver vb out err \<in> set uevs" using e tr by simp
    from update_loop_events [OF ul this, where m = n and n = n and c = cur and t = tgt] x
    have "\<exists>y \<in> set (snd (plan pins cur' lat sets)).
        \<exists>out' err'. EvExec n commandUpdate ver vb out err = EvExec n commandUpdate (fst y) v out' err'
          \<and> n = Name (snd y)" by simp
    then obtain y where "y \<in> set (snd (plan pins cur' lat sets))"
      and "\<exists>out' err'. EvExec n commandUpdate ver vb out err = EvExec n commandUpdate (fst y) v out' err'
          \<and> n = Name (snd y)" ..
    then have y: "y \<in> set (snd (plan pins cur' lat sets))" "ver = fst y" "n = Name (snd y)"
      by auto
    then have "(fst y, snd y) \<in> set (snd (plan pins cur' lat sets))" by simp
    from plan_queue [OF this] y tgt show ?thesis by simp
  qed
  have 4: "\<exists>c t. EvPrint (OutPlan (Name s') c t) \<in> set tr" if "s' \<in> set sets" for s'
  proof -
    from plan_all_lines [OF that, of cur' pins lat] tr
    have "EvPrint (OutPlan (Name s') (index cur' (Name s'))
      (cmp_Or (index pins (Name s')) (index lat (Name s')))) \<in> set tr" by simp
    then show ?thesis by blast
  qed
  from rp n 1 2 3 4 show ?thesis by blast
qed

text \<open>
  Claim C3. In an update run over targets of distinct names, when the line of a target shows
  a current version equal to the target version, then: the current version is the trimmed
  output of the target's \<open>ver\<close>, the target version is \<open>cmp.Or\<close> of the pin and the
  trimmed output of its \<open>checklatest\<close>, the line ends with the "no update" text, and the
  history has no \<open>update\<close> of that target. The history agrees with the host, so no
  \<open>update\<close> process was run for it.
\<close>

theorem update_skip:
  assumes "run_command h dir pins v f sets commandUpdate w = (r, tr, w')"
    and "distinct (map Name sets)"
    and "EvPrint (OutPlan n cur tgt) \<in> set tr"
    and "cur = tgt"
  shows "replay h w tr = Some w' \<and>
     (\<exists>out. EvExec n commandVer [] v out None \<in> set tr \<and> cur = TrimSpace h out) \<and>
     (\<exists>out. EvExec n commandChecklatest [] v out None \<in> set tr \<and>
        tgt = cmp_Or (index pins n) (TrimSpace h out)) \<and>
     sublist (EvPrint (OutPlan n cur tgt) #
              (if index pins n \<noteq> [] then [EvPrint OutPinned] else []) @ [EvPrint OutNoUpdate]) tr \<and>
     (\<forall>e \<in> set tr. \<not> is_exec n commandUpdate e)"
proof -
  from assms(1) have u: "update_run h dir pins v sets w = (r, tr, w')" by simp
  from update_run_phases [OF u assms(3)] obtain evs cur' lat w1 uevs where
    g: "for_each (gather_one h dir v) sets ([], [], w) = (None, evs, (cur', lat, w1))"
    and ul: "for_each (update_one h dir v) (snd (plan pins cur' lat sets)) w1 = (r, uevs, w')"
    and tr: "tr = evs @ fst (plan pins cur' lat sets) @ uevs"
    and line: "EvPrint (OutPlan n cur tgt) \<in> set (fst (plan pins cur' lat sets))"
    by blast
  have rp: "replay h w tr = Some w'" using assms(1) by (rule run_command_replay)
  from plan_lines [OF line] have n: "n \<in> Name ` set sets"
    and cur: "cur = index cur' n"
    and tgt: "tgt = cmp_Or (index pins n) (index lat n)" by simp_all
  from n obtain s where s: "s \<in> set sets" "n = Name s" by blast
  from gather_loop_ok [OF g assms(2)] s(1) obtain out out2 where
    ev0: "EvExec (Name s) commandVer [] v out None \<in> set evs"
      "map_of cur' (Name s) = Some (TrimSpace h out)"
      "EvExec (Name s) commandChecklatest [] v out2 None \<in> set evs"
      "map_of lat (Name s) = Some (TrimSpace h out2)" by blast
  with s(2) have ev: "EvExec n commandVer [] v out None \<in> set evs"
      "map_of cur' n = Some (TrimSpace h out)"
      "EvExec n commandChecklatest [] v out2 None \<in> set evs"
      "map_of lat n = Some (TrimSpace h out2)" by simp_all
  have 1: "\<exists>out. EvExec n commandVer [] v out None \<in> set tr \<and> cur = TrimSpace h out"
  proof -
    from ev(1) tr have "EvExec n commandVer [] v out None \<in> set tr" by simp
    moreover from ev(2) cur have "cur = TrimSpace h out" by (simp add: index_def)
    ultimately show ?thesis by blast
  qed
  have 2: "\<exists>out. EvExec n commandChecklatest [] v out None \<in> set tr \<and>
        tgt = cmp_Or (index pins n) (TrimSpace h out)"
  proof -
    from ev(3) tr have "EvExec n commandChecklatest [] v out2 None \<in> set tr" by simp
    moreover from ev(4) tgt have "tgt = cmp_Or (index pins n) (TrimSpace h out2)"
      by (simp add: index_def)
    ultimately show ?thesis by blast
  qed
  from assms(4) cur tgt s(2)
  have eq: "index cur' (Name s) = cmp_Or (index pins (Name s)) (index lat (Name s))" by simp
  from plan_no_update_line [OF s(1) eq] s(2) cur tgt
  have "sublist (EvPrint (OutPlan n cur tgt) #
              (if index pins n \<noteq> [] then [EvPrint OutPinned] else []) @ [EvPrint OutNoUpdate])
          (fst (plan pins cur' lat sets))"
    by simp
  then obtain ps ss where "fst (plan pins cur' lat sets) = ps @ (EvPrint (OutPlan n cur tgt) #
              (if index pins n \<noteq> [] then [EvPrint OutPinned] else []) @ [EvPrint OutNoUpdate]) @ ss"
    unfolding sublist_def by blast
  with tr have "tr = (evs @ ps) @ (EvPrint (OutPlan n cur tgt) #
              (if index pins n \<noteq> [] then [EvPrint OutPinned] else []) @ [EvPrint OutNoUpdate]) @
              (ss @ uevs)" by simp
  then have 3: "sublist (EvPrint (OutPlan n cur tgt) #
              (if index pins n \<noteq> [] then [EvPrint OutPinned] else []) @ [EvPrint OutNoUpdate]) tr"
    unfolding sublist_def by blast
  have 4: "\<not> is_exec n commandUpdate e" if e: "e \<in> set tr" for e
  proof
    assume x: "is_exec n commandUpdate e"
    have "e \<notin> set evs"
    proof
      assume "e \<in> set evs"
      from gather_loop_events [OF g this, of n] x show False by simp
    qed
    moreover have "e \<notin> set (fst (plan pins cur' lat sets))"
    proof
      assume "e \<in> set (fst (plan pins cur' lat sets))"
      with plan_prints_fst [of pins cur' lat sets] have "is_print e" by (rule bspec)
      with x show False by (simp add: is_exec_not_print)
    qed
    ultimately have "e \<in> set uevs" using e tr by simp
    from update_loop_events [OF ul this, where m = n and n = n and c = cur and t = tgt] x
    have "\<exists>y \<in> set (snd (plan pins cur' lat sets)).
        \<exists>out err. e = EvExec n commandUpdate (fst y) v out err \<and> n = Name (snd y)" by simp
    then obtain y where "y \<in> set (snd (plan pins cur' lat sets))"
      and "\<exists>out err. e = EvExec n commandUpdate (fst y) v out err \<and> n = Name (snd y)" ..
    then have y: "y \<in> set (snd (plan pins cur' lat sets))" "n = Name (snd y)" by auto
    then have "(fst y, snd y) \<in> set (snd (plan pins cur' lat sets))" by simp
    from plan_queue [OF this] have "index cur' (Name (snd y)) \<noteq>
        cmp_Or (index pins (Name (snd y))) (index lat (Name (snd y)))" by metis
    with y(2) cur tgt assms(4) show False by simp
  qed
  from rp 1 2 3 4 show ?thesis by blast
qed

theorem effective_target_version_witness:
  "run_command small_host ''cfg'' [(''a'', ''1.5'')] False False
     [target ''a'' (Some [''echo'', ''1.0'']) (Some [''echo'', ''2.0'']) None (Some [''echo'', ''${VER}'']),
      target ''b'' (Some [''echo'', ''1.0'']) (Some [''echo'', ''2.0'']) None (Some [''echo'', ''${VER}''])]
     commandUpdate 0
   = (None,
      [EvLaunch [''echo'', ''1.0''] [''HOME=/root'', ''OS=linux'', ''ARCH=amd64''] False,
       EvExec ''a'' commandVer [] False (''1.0'' @ [CHR 0x0A]) None,
       EvLaunch [''echo'', ''2.0''] [''HOME=/root'', ''OS=linux'', ''ARCH=amd64''] False,
       EvExec ''a'' commandChecklatest [] False (''2.0'' @ [CHR 0x0A]) None,
       EvLaunch [''echo'', ''1.0''] [''HOME=/root'', ''OS=linux'', ''ARCH=amd64''] False,
       EvExec ''b'' commandVer [] False (''1.0'' @ [CHR 0x0A]) None,
       EvLaunch [''echo'', ''2.0''] [''HOME=/root'', ''OS=linux'', ''ARCH=amd64''] False,
       EvExec ''b'' commandChecklatest [] False (''2.0'' @ [CHR 0x0A]) None,
       EvPrint (OutPlan ''a'' ''1.0'' ''1.5''), EvPrint OutPinned, EvPrint OutNewline,
       EvPrint (OutPlan ''b'' ''1.0'' ''2.0''), EvPrint OutNewline,
       EvPrint (OutUpdating ''a''),
       EvLaunch [''echo'', ''1.5''] [''HOME=/root'', ''OS=linux'', ''ARCH=amd64'', ''VER=1.5''] False,
       EvExec ''a'' commandUpdate ''1.5'' False (''1.5'' @ [CHR 0x0A]) None,
       EvPrint (OutUpdated ''a''), EvPrint (OutUpdating ''b''),
       EvLaunch [''echo'', ''2.0''] [''HOME=/root'', ''OS=linux'', ''ARCH=amd64'', ''VER=2.0''] False,
       EvExec ''b'' commandUpdate ''2.0'' False (''2.0'' @ [CHR 0x0A]) None,
       EvPrint (OutUpdated ''b'')],
      6) \<and>
   distinct (map Name
     [target ''a'' (Some [''echo'', ''1.0'']) (Some [''echo'', ''2.0'']) None (Some [''echo'', ''${VER}'']),
      target ''b'' (Some [''echo'', ''1.0'']) (Some [''echo'', ''2.0'']) None (Some [''echo'', ''${VER}''])]) \<and>
   map_of [(''a'', ''1.5'')] ''a'' = Some ''1.5'' \<and>
   map_of [(''a'', ''1.5'')] ''b'' = None \<and>
   ''2.0'' = TrimSpace small_host (''2.0'' @ [CHR 0x0A])"
  (is "?run = (None, ?tr, 6) \<and> ?d \<and> _")
proof -
  have run: "?run = (None, ?tr, 6)" by (simp add: run_defs)
  have d: ?d by (simp add: target_def)
  have la: "EvPrint (OutPlan ''a'' ''1.0'' ''1.5'') \<in> set ?tr" by simp
  have lb: "EvPrint (OutPlan ''b'' ''1.0'' ''2.0'') \<in> set ?tr" by simp
  from effective_target_version [OF run d la] have "''a'' \<in> Name `
    set [target ''a'' (Some [''echo'', ''1.0'']) (Some [''echo'', ''2.0'']) None (Some [''echo'', ''${VER}'']),
      target ''b'' (Some [''echo'', ''1.0'']) (Some [''echo'', ''2.0'']) None (Some [''echo'', ''${VER}''])]"
    by blast
  moreover from effective_target_version [OF run d lb] have "''b'' \<in> Name `
    set [target ''a'' (Some [''echo'', ''1.0'']) (Some [''echo'', ''2.0'']) None (Some [''echo'', ''${VER}'']),
      target ''b'' (Some [''echo'', ''1.0'']) (Some [''echo'', ''2.0'']) None (Some [''echo'', ''${VER}''])]"
    by blast
  ultimately show ?thesis using run d
    by (simp add: small_host_def trim_ascii_def ascii_space_def)
qed

text \<open>
  Claim C2, as stated, fails: an entry that is present but empty does not win. With the pin
  file \<open>{"x": ""}\<close>, current version \<open>1.0\<close> and latest version \<open>2.0\<close>, the target version
  is \<open>2.0\<close> and \<open>update\<close> is run with it.
\<close>

theorem effective_target_version_empty_pin:
  "map_of [(''x'', [])] ''x'' = Some [] \<and>
   run_command small_host ''cfg'' [(''x'', [])] False False
     [target ''x'' (Some [''echo'', ''1.0'']) (Some [''echo'', ''2.0'']) None (Some [''echo'', ''${VER}''])]
     commandUpdate 0
   = (None,
      [EvLaunch [''echo'', ''1.0''] [''HOME=/root'', ''OS=linux'', ''ARCH=amd64''] False,
       EvExec ''x'' commandVer [] False (''1.0'' @ [CHR 0x0A]) None,
       EvLaunch [''echo'', ''2.0''] [''HOME=/root'', ''OS=linux'', ''ARCH=amd64''] False,
       EvExec ''x'' commandChecklatest [] False (''2.0'' @ [CHR 0x0A]) None,
       EvPrint (OutPlan ''x'' ''1.0'' ''2.0''), EvPrint OutNewline,
       EvPrint (OutUpdating ''x''),
       EvLaunch [''echo'', ''2.0''] [''HOME=/root'', ''OS=linux'', ''ARCH=amd64'', ''VER=2.0''] False,
       EvExec ''x'' commandUpdate ''2.0'' False (''2.0'' @ [CHR 0x0A]) None,
       EvPrint (OutUpdated ''x'')],
      3) \<and>
   ''2.0'' \<noteq> []"
  by (simp add: run_defs)

theorem update_skip_witness:
  "run_command small_host ''cfg'' [(''bar'', ''2.0.0'')] False False
     [target ''bar'' (Some [''echo'', ''2.0.0'']) (Some [''echo'', ''2.3.1'']) None (Some [''echo'', ''${VER}''])]
     commandUpdate 0
   = (None,
      [EvLaunch [''echo'', ''2.0.0''] [''HOME=/root'', ''OS=linux'', ''ARCH=amd64''] False,
       EvExec ''bar'' commandVer [] False (''2.0.0'' @ [CHR 0x0A]) None,
       EvLaunch [''echo'', ''2.3.1''] [''HOME=/root'', ''OS=linux'', ''ARCH=amd64''] False,
       EvExec ''bar'' commandChecklatest [] False (''2.3.1'' @ [CHR 0x0A]) None,
       EvPrint (OutPlan ''bar'' ''2.0.0'' ''2.0.0''), EvPrint OutPinned, EvPrint OutNoUpdate],
      2) \<and>
   distinct (map Name
     [target ''bar'' (Some [''echo'', ''2.0.0'']) (Some [''echo'', ''2.3.1'']) None (Some [''echo'', ''${VER}''])]) \<and>
   replay small_host 0
      [EvLaunch [''echo'', ''2.0.0''] [''HOME=/root'', ''OS=linux'', ''ARCH=amd64''] False,
       EvExec ''bar'' commandVer [] False (''2.0.0'' @ [CHR 0x0A]) None,
       EvLaunch [''echo'', ''2.3.1''] [''HOME=/root'', ''OS=linux'', ''ARCH=amd64''] False,
       EvExec ''bar'' commandChecklatest [] False (''2.3.1'' @ [CHR 0x0A]) None,
       EvPrint (OutPlan ''bar'' ''2.0.0'' ''2.0.0''), EvPrint OutPinned, EvPrint OutNoUpdate]
     = Some 2"
  (is "?run = (None, ?tr, 2) \<and> ?d \<and> _")
proof -
  have run: "?run = (None, ?tr, 2)" by (simp add: run_defs)
  have d: ?d by (simp add: target_def)
  have line: "EvPrint (OutPlan ''bar'' ''2.0.0'' ''2.0.0'') \<in> set ?tr" by simp
  from update_skip [OF run d line refl] have "replay small_host 0 ?tr = Some 2" by (rule conjunct1)
  with run d show ?thesis by blast
qed

section \<open>The install run\<close>

lemma quiet_cases: "quiet e \<Longrightarrow> (\<exists>p. e = EvStat p) \<or> (\<exists>a b c. e = EvLaunch a b c)"
  by (cases e) simp_all

lemma install_one_shape:
  assumes "install_one h dir pins v f s w = (r, evs, w')"
  shows "(\<exists>out pre1. r = None \<and>
       evs = EvPrint (OutInstalling (Name s)) # pre1 @
         [EvExec (Name s) commandVer [] False out None,
          EvPrint (OutSkipping (Name s) (TrimSpace h out))] \<and>
       (\<forall>e \<in> set pre1. quiet e)) \<or>
     (\<exists>out1 e1 out2 err2 out3 err3 pre1 pre2 pre3 warn tail.
       evs = EvPrint (OutInstalling (Name s)) # pre1 @
         [EvExec (Name s) commandVer [] False out1 (Some e1)] @ pre2 @
         [EvExec (Name s) commandChecklatest [] False out2 err2] @ warn @ pre3 @
         [EvExec (Name s) commandInstall
            (cmp_Or (index pins (Name s))
               (case err2 of None \<Rightarrow> TrimSpace h out2 | Some _ \<Rightarrow> [])) v out3 err3] @ tail \<and>
       (\<forall>e \<in> set pre1. quiet e) \<and> (\<forall>e \<in> set pre2. quiet e) \<and> (\<forall>e \<in> set pre3. quiet e) \<and>
       (\<forall>e \<in> set warn. \<exists>x. e = EvPrint (OutFetchFailed x)) \<and>
       (case err3 of
          None \<Rightarrow> r = None \<and> tail = [EvPrint (OutInstallDone (Name s))]
        | Some e \<Rightarrow>
            if f then r = None \<and> tail = [EvPrint (OutWarn (InstallFailed (Name s) e))]
            else r = Some (InstallFailed (Name s) e) \<and> tail = []))"
proof -
  obtain out err ev1 w1 where e1: "Exec h dir s commandVer [] False w = ((out, err), ev1, w1)"
    by (metis prod.exhaust)
  from Exec_history [OF e1] obtain pre1 where
    p1: "ev1 = pre1 @ [EvExec (Name s) commandVer [] False out err]" "\<forall>e \<in> set pre1. quiet e"
    by blast
  show ?thesis
  proof (cases err)
    case None
    with assms e1 have "r = None" "evs = EvPrint (OutInstalling (Name s)) # ev1 @
        [EvPrint (OutSkipping (Name s) (TrimSpace h out))]"
      by (auto simp: install_one_def)
    with p1 None show ?thesis by auto
  next
    case (Some e1')
    obtain out2 err2 ev2 w2 where
      e2: "Exec h dir s commandChecklatest [] False w1 = ((out2, err2), ev2, w2)"
      by (metis prod.exhaust)
    from Exec_history [OF e2] obtain pre2 where
      p2: "ev2 = pre2 @ [EvExec (Name s) commandChecklatest [] False out2 err2]"
        "\<forall>e \<in> set pre2. quiet e" by blast
    define ver where "ver = (case err2 of None \<Rightarrow> TrimSpace h out2 | Some _ \<Rightarrow> [])"
    define warn where "warn = (case err2 of None \<Rightarrow> [] | Some e \<Rightarrow> [EvPrint (OutFetchFailed e)])"
    obtain out3 err3 ev3 w3 where
      e3: "Exec h dir s commandInstall (cmp_Or (index pins (Name s)) ver) v w2 = ((out3, err3), ev3, w3)"
      by (metis prod.exhaust)
    from Exec_history [OF e3] obtain pre3 where
      p3: "ev3 = pre3 @ [EvExec (Name s) commandInstall (cmp_Or (index pins (Name s)) ver) v out3 err3]"
        "\<forall>e \<in> set pre3. quiet e" by blast
    define tail where "tail = (case err3 of None \<Rightarrow> [EvPrint (OutInstallDone (Name s))]
        | Some e \<Rightarrow> if f then [EvPrint (OutWarn (InstallFailed (Name s) e))] else [])"
    have pw: "\<forall>e \<in> set warn. \<exists>x. e = EvPrint (OutFetchFailed x)"
      by (auto simp: warn_def split: option.splits)
    from assms e1 Some e2 e3 have evs: "evs = EvPrint (OutInstalling (Name s)) # ev1 @ ev2 @ warn @ ev3 @ tail"
      and r: "(case err3 of None \<Rightarrow> r = None | Some e \<Rightarrow> if f then r = None else r = Some (InstallFailed (Name s) e))"
      by (auto simp: install_one_def Let_def ver_def warn_def tail_def split: option.splits if_splits)
    have t: "(case err3 of
          None \<Rightarrow> r = None \<and> tail = [EvPrint (OutInstallDone (Name s))]
        | Some e \<Rightarrow>
            if f then r = None \<and> tail = [EvPrint (OutWarn (InstallFailed (Name s) e))]
            else r = Some (InstallFailed (Name s) e) \<and> tail = [])"
      using r by (auto simp: tail_def split: option.splits)
    from evs p1 p2 p3 Some have "evs = EvPrint (OutInstalling (Name s)) # pre1 @
         [EvExec (Name s) commandVer [] False out (Some e1')] @ pre2 @
         [EvExec (Name s) commandChecklatest [] False out2 err2] @ warn @ pre3 @
         [EvExec (Name s) commandInstall
            (cmp_Or (index pins (Name s))
               (case err2 of None \<Rightarrow> TrimSpace h out2 | Some _ \<Rightarrow> [])) v out3 err3] @ tail"
      by (simp add: ver_def)
    with p1(2) p2(2) p3(2) pw t show ?thesis by blast
  qed
qed

lemma exec_mem_is_exec: "EvExec n k ver vb out err \<in> set tr \<Longrightarrow> \<exists>e \<in> set tr. is_exec n k e"
  by (rule bexI [where x = "EvExec n k ver vb out err"]) simp_all

lemma install_law_none:
  assumes "\<forall>e \<in> set tr. \<forall>k. \<not> is_exec n k e"
  shows "install_law h pins v f n r tr"
proof -
  have "EvExec n k ver vb out err \<notin> set tr" for k ver vb out err
    using assms exec_mem_is_exec by blast
  then show ?thesis by (simp add: install_law_def)
qed

lemma install_law_append_left:
  assumes no: "\<forall>e \<in> set evs0. \<forall>k. \<not> is_exec n k e"
    and law: "install_law h pins v f n r tr1"
  shows "install_law h pins v f n r (evs0 @ tr1)"
proof -
  have mem: "EvExec n k ver vb out err \<in> set (evs0 @ tr1) \<longleftrightarrow> EvExec n k ver vb out err \<in> set tr1"
    for k ver vb out err
    using no exec_mem_is_exec [of n k ver vb out err evs0] by auto
  have 1: "EvPrint (OutSkipping n (TrimSpace h out)) \<in> set (evs0 @ tr1) \<and>
        (\<forall>e \<in> set (evs0 @ tr1). \<not> is_exec n commandInstall e)"
    if "EvExec n commandVer [] False out None \<in> set (evs0 @ tr1)" for out
  proof -
    from that mem have "EvExec n commandVer [] False out None \<in> set tr1" by simp
    with law have "EvPrint (OutSkipping n (TrimSpace h out)) \<in> set tr1"
      "\<forall>e \<in> set tr1. \<not> is_exec n commandInstall e" by (simp_all add: install_law_def)
    with no show ?thesis by auto
  qed
  have 2: "\<exists>out2 err2. EvExec n commandChecklatest [] False out2 err2 \<in> set (evs0 @ tr1)"
    if "EvExec n commandVer [] False out1 (Some e1) \<in> set (evs0 @ tr1)" for out1 e1
  proof -
    from that mem have "EvExec n commandVer [] False out1 (Some e1) \<in> set tr1" by simp
    with law have "\<exists>out2 err2. EvExec n commandChecklatest [] False out2 err2 \<in> set tr1"
      unfolding install_law_def by blast
    then show ?thesis by auto
  qed
  have 3: "\<exists>out3 err3. EvExec n commandInstall
           (if index pins n \<noteq> [] then index pins n
            else if err2 = None then TrimSpace h out2 else []) v out3 err3 \<in> set (evs0 @ tr1)"
    if "EvExec n commandVer [] False out1 (Some e1) \<in> set (evs0 @ tr1) \<and>
        EvExec n commandChecklatest [] False out2 err2 \<in> set (evs0 @ tr1)" for out1 e1 out2 err2
  proof -
    from that mem have "EvExec n commandVer [] False out1 (Some e1) \<in> set tr1 \<and>
        EvExec n commandChecklatest [] False out2 err2 \<in> set tr1" by simp
    with law have "\<exists>out3 err3. EvExec n commandInstall
           (if index pins n \<noteq> [] then index pins n
            else if err2 = None then TrimSpace h out2 else []) v out3 err3 \<in> set tr1"
      unfolding install_law_def by blast
    then show ?thesis by (simp only: mem)
  qed
  have 4: "if f then EvPrint (OutWarn (InstallFailed n e)) \<in> set (evs0 @ tr1)
         else r = Some (InstallFailed n e) \<and> evs0 @ tr1 \<noteq> [] \<and>
              last (evs0 @ tr1) = EvExec n commandInstall ver vb out (Some e)"
    if "EvExec n commandInstall ver vb out (Some e) \<in> set (evs0 @ tr1)" for ver vb out e
  proof -
    from that mem have "EvExec n commandInstall ver vb out (Some e) \<in> set tr1" by simp
    with law have "if f then EvPrint (OutWarn (InstallFailed n e)) \<in> set tr1
         else r = Some (InstallFailed n e) \<and> tr1 \<noteq> [] \<and>
              last tr1 = EvExec n commandInstall ver vb out (Some e)"
      unfolding install_law_def by blast
    then show ?thesis by (cases f) auto
  qed
  from 1 2 3 4 show ?thesis unfolding install_law_def by blast
qed

lemma install_law_append_right:
  assumes no: "\<forall>e \<in> set tr1. \<forall>k. \<not> is_exec n k e"
    and law: "install_law h pins v f n None evs0"
  shows "install_law h pins v f n r (evs0 @ tr1)"
proof -
  have mem: "EvExec n k ver vb out err \<in> set (evs0 @ tr1) \<longleftrightarrow> EvExec n k ver vb out err \<in> set evs0"
    for k ver vb out err
    using no exec_mem_is_exec [of n k ver vb out err tr1] by auto
  have 1: "EvPrint (OutSkipping n (TrimSpace h out)) \<in> set (evs0 @ tr1) \<and>
        (\<forall>e \<in> set (evs0 @ tr1). \<not> is_exec n commandInstall e)"
    if "EvExec n commandVer [] False out None \<in> set (evs0 @ tr1)" for out
  proof -
    from that mem have "EvExec n commandVer [] False out None \<in> set evs0" by simp
    with law have "EvPrint (OutSkipping n (TrimSpace h out)) \<in> set evs0"
      "\<forall>e \<in> set evs0. \<not> is_exec n commandInstall e" by (simp_all add: install_law_def)
    with no show ?thesis by auto
  qed
  have 2: "\<exists>out2 err2. EvExec n commandChecklatest [] False out2 err2 \<in> set (evs0 @ tr1)"
    if "EvExec n commandVer [] False out1 (Some e1) \<in> set (evs0 @ tr1)" for out1 e1
  proof -
    from that mem have "EvExec n commandVer [] False out1 (Some e1) \<in> set evs0" by simp
    with law have "\<exists>out2 err2. EvExec n commandChecklatest [] False out2 err2 \<in> set evs0"
      unfolding install_law_def by blast
    then show ?thesis by auto
  qed
  have 3: "\<exists>out3 err3. EvExec n commandInstall
           (if index pins n \<noteq> [] then index pins n
            else if err2 = None then TrimSpace h out2 else []) v out3 err3 \<in> set (evs0 @ tr1)"
    if "EvExec n commandVer [] False out1 (Some e1) \<in> set (evs0 @ tr1) \<and>
        EvExec n commandChecklatest [] False out2 err2 \<in> set (evs0 @ tr1)" for out1 e1 out2 err2
  proof -
    from that mem have "EvExec n commandVer [] False out1 (Some e1) \<in> set evs0 \<and>
        EvExec n commandChecklatest [] False out2 err2 \<in> set evs0" by simp
    with law have "\<exists>out3 err3. EvExec n commandInstall
           (if index pins n \<noteq> [] then index pins n
            else if err2 = None then TrimSpace h out2 else []) v out3 err3 \<in> set evs0"
      unfolding install_law_def by blast
    then show ?thesis by (simp only: mem)
  qed
  have 4: "if f then EvPrint (OutWarn (InstallFailed n e)) \<in> set (evs0 @ tr1)
         else r = Some (InstallFailed n e) \<and> evs0 @ tr1 \<noteq> [] \<and>
              last (evs0 @ tr1) = EvExec n commandInstall ver vb out (Some e)"
    if "EvExec n commandInstall ver vb out (Some e) \<in> set (evs0 @ tr1)" for ver vb out e
  proof -
    from that mem have "EvExec n commandInstall ver vb out (Some e) \<in> set evs0" by simp
    with law have "if f then EvPrint (OutWarn (InstallFailed n e)) \<in> set evs0
         else None = Some (InstallFailed n e) \<and> evs0 \<noteq> [] \<and>
              last evs0 = EvExec n commandInstall ver vb out (Some e)"
      unfolding install_law_def by blast
    then show ?thesis by (cases f) auto
  qed
  from 1 2 3 4 show ?thesis unfolding install_law_def by blast
qed

lemma quiet_no_exec: "\<forall>e \<in> set pre. quiet e \<Longrightarrow> EvExec n k ver vb out err \<notin> set pre"
  by (metis quiet.simps(3))

lemma quiet_no_print: "\<forall>e \<in> set pre. quiet e \<Longrightarrow> EvPrint x \<notin> set pre"
  by (metis quiet.simps(4))

lemma quiet_no_is_exec: "\<forall>e \<in> set pre. quiet e \<Longrightarrow> e \<in> set pre \<Longrightarrow> \<not> is_exec n k e"
  by (cases e) auto

lemma is_exec_cases: "is_exec n k e \<Longrightarrow> \<exists>ver vb out err. e = EvExec n k ver vb out err"
  by (cases e) auto

lemma install_one_law:
  assumes "install_one h dir pins v f s w = (r, evs, w')"
  shows "(\<forall>e \<in> set evs. \<forall>n k. is_exec n k e \<longrightarrow> n = Name s) \<and>
     install_law h pins v f (Name s) r evs \<and>
     EvPrint (OutInstalling (Name s)) \<in> set evs \<and>
     (f \<longrightarrow> r = None) \<and>
     (\<forall>p. r = Some p \<longrightarrow> \<not> f \<and> (\<exists>e. p = InstallFailed (Name s) e))"
proof -
  from install_one_shape [OF assms] consider
    (skip) out pre1 where "r = None"
       "evs = EvPrint (OutInstalling (Name s)) # pre1 @
         [EvExec (Name s) commandVer [] False out None,
          EvPrint (OutSkipping (Name s) (TrimSpace h out))]"
       "\<forall>e \<in> set pre1. quiet e"
  | (inst) out1 e1 out2 err2 out3 err3 pre1 pre2 pre3 warn tail where
       "evs = EvPrint (OutInstalling (Name s)) # pre1 @
         [EvExec (Name s) commandVer [] False out1 (Some e1)] @ pre2 @
         [EvExec (Name s) commandChecklatest [] False out2 err2] @ warn @ pre3 @
         [EvExec (Name s) commandInstall
            (cmp_Or (index pins (Name s))
               (case err2 of None \<Rightarrow> TrimSpace h out2 | Some _ \<Rightarrow> [])) v out3 err3] @ tail"
       "\<forall>e \<in> set pre1. quiet e" "\<forall>e \<in> set pre2. quiet e" "\<forall>e \<in> set pre3. quiet e"
       "\<forall>e \<in> set warn. \<exists>x. e = EvPrint (OutFetchFailed x)"
       "case err3 of
          None \<Rightarrow> r = None \<and> tail = [EvPrint (OutInstallDone (Name s))]
        | Some e \<Rightarrow>
            if f then r = None \<and> tail = [EvPrint (OutWarn (InstallFailed (Name s) e))]
            else r = Some (InstallFailed (Name s) e) \<and> tail = []"
    by blast
  then show ?thesis
  proof cases
    case skip
    note q = quiet_no_exec [OF skip(3)] quiet_no_print [OF skip(3)]
    have a: "\<forall>e \<in> set evs. \<forall>n k. is_exec n k e \<longrightarrow> n = Name s"
      using skip(2) quiet_no_is_exec [OF skip(3)] by auto
    have b: "install_law h pins v f (Name s) r evs"
      unfolding install_law_def using skip(2) q quiet_no_is_exec [OF skip(3)] by auto
    from a b skip show ?thesis by simp
  next
    case inst
    let ?ver = "cmp_Or (index pins (Name s))
               (case err2 of None \<Rightarrow> TrimSpace h out2 | Some _ \<Rightarrow> [])"
    have tail: "(\<forall>e \<in> set tail. \<forall>n k. \<not> is_exec n k e) \<and>
      (\<forall>n k ver vb out err. EvExec n k ver vb out err \<notin> set tail)"
      using inst(6) by (auto split: option.splits if_splits)
    have warn: "(\<forall>e \<in> set warn. \<forall>n k. \<not> is_exec n k e) \<and>
      (\<forall>n k ver vb out err. EvExec n k ver vb out err \<notin> set warn)"
      using inst(5) by fastforce
    have mem: "EvExec n k ver vb out err \<in> set evs \<longleftrightarrow>
        EvExec n k ver vb out err = EvExec (Name s) commandVer [] False out1 (Some e1) \<or>
        EvExec n k ver vb out err = EvExec (Name s) commandChecklatest [] False out2 err2 \<or>
        EvExec n k ver vb out err = EvExec (Name s) commandInstall ?ver v out3 err3"
      for n k ver vb out err
      using inst(1) quiet_no_exec [OF inst(2)] quiet_no_exec [OF inst(3)]
        quiet_no_exec [OF inst(4)] tail warn by auto
    have a: "\<forall>e \<in> set evs. \<forall>n k. is_exec n k e \<longrightarrow> n = Name s"
    proof (intro ballI allI impI)
      fix e n k
      assume e: "e \<in> set evs" "is_exec n k e"
      from is_exec_cases [OF e(2)] obtain ver vb out err where "e = EvExec n k ver vb out err"
        by blast
      with e(1) mem show "n = Name s" by auto
    qed
    have ver_eq: "?ver = (if index pins (Name s) \<noteq> [] then index pins (Name s)
            else if err2 = None then TrimSpace h out2 else [])"
      by (auto simp: cmp_Or_def split: option.splits)
    have c4: "if f then EvPrint (OutWarn (InstallFailed (Name s) e)) \<in> set evs
         else r = Some (InstallFailed (Name s) e) \<and> evs \<noteq> [] \<and>
              last evs = EvExec (Name s) commandInstall ver vb out (Some e)"
      if "EvExec (Name s) commandInstall ver vb out (Some e) \<in> set evs" for ver vb out e
    proof -
      from that mem have eq: "ver = ?ver" "vb = v" "out = out3" "err3 = Some e" by auto
      show ?thesis
      proof (cases f)
        case True
        with inst(6) eq have "tail = [EvPrint (OutWarn (InstallFailed (Name s) e))]" by simp
        with inst(1) True show ?thesis by simp
      next
        case False
        with inst(6) eq have "r = Some (InstallFailed (Name s) e)" "tail = []" by simp_all
        with inst(1) False eq show ?thesis by simp
      qed
    qed
    have c3: "\<exists>out3 err3. EvExec (Name s) commandInstall
           (if index pins (Name s) \<noteq> [] then index pins (Name s)
            else if err2' = None then TrimSpace h out2' else []) v out3 err3 \<in> set evs"
      if "EvExec (Name s) commandChecklatest [] False out2' err2' \<in> set evs" for out2' err2'
    proof -
      from that mem have eq: "out2' = out2" "err2' = err2" by auto
      have "EvExec (Name s) commandInstall ?ver v out3 err3 \<in> set evs"
        using mem by blast
      then have "EvExec (Name s) commandInstall
           (if index pins (Name s) \<noteq> [] then index pins (Name s)
            else if err2' = None then TrimSpace h out2' else []) v out3 err3 \<in> set evs"
        unfolding ver_eq eq .
      then show ?thesis by blast
    qed
    have c2: "\<exists>out2 err2. EvExec (Name s) commandChecklatest [] False out2 err2 \<in> set evs"
      using mem by blast
    have c1: "EvExec (Name s) commandVer [] False out None \<notin> set evs" for out
      using mem by auto
    have b: "install_law h pins v f (Name s) r evs"
      unfolding install_law_def using c1 c2 c3 c4 by blast
    have d: "EvPrint (OutInstalling (Name s)) \<in> set evs" using inst(1) by simp
    have e: "(f \<longrightarrow> r = None) \<and> (\<forall>p. r = Some p \<longrightarrow> \<not> f \<and> (\<exists>e. p = InstallFailed (Name s) e))"
      using inst(6) by (auto split: option.splits if_splits)
    from a b d e show ?thesis by blast
  qed
qed

lemma install_loop_law:
  assumes "for_each (install_one h dir pins v f) sets w = (r, tr, w')"
    and "distinct (map Name sets)"
  shows "(\<forall>e \<in> set tr. \<forall>n k. is_exec n k e \<longrightarrow> n \<in> Name ` set sets) \<and>
     (\<forall>n. install_law h pins v f n r tr) \<and>
     (f \<longrightarrow> r = None \<and> (\<forall>s \<in> set sets. EvPrint (OutInstalling (Name s)) \<in> set tr)) \<and>
     (\<forall>p. r = Some p \<longrightarrow> \<not> f \<and> (\<exists>n e. p = InstallFailed n e))"
  using assms
proof (induction sets arbitrary: w r tr w')
  case Nil
  then show ?case by (simp add: install_law_none)
next
  case (Cons s ss)
  obtain r0 evs0 w0 where b: "install_one h dir pins v f s w = (r0, evs0, w0)"
    by (metis prod.exhaust)
  from install_one_law [OF b] have
    b1: "\<forall>e \<in> set evs0. \<forall>n k. is_exec n k e \<longrightarrow> n = Name s"
    and b2: "install_law h pins v f (Name s) r0 evs0"
    and b3: "EvPrint (OutInstalling (Name s)) \<in> set evs0"
    and b4: "f \<longrightarrow> r0 = None"
    and b5: "\<forall>p. r0 = Some p \<longrightarrow> \<not> f \<and> (\<exists>e. p = InstallFailed (Name s) e)"
    by blast+
  have other0: "\<forall>e \<in> set evs0. \<forall>k. \<not> is_exec n k e" if "n \<noteq> Name s" for n
    using b1 that by blast
  show ?case
  proof (cases r0)
    case (Some p)
    with Cons.prems(1) b have res: "r = Some p" "tr = evs0" by simp_all
    have l1: "\<forall>e \<in> set tr. \<forall>n k. is_exec n k e \<longrightarrow> n \<in> Name ` set (s # ss)"
      using b1 res by auto
    have l2: "install_law h pins v f n r tr" for n
    proof (cases "n = Name s")
      case True
      with b2 Some res show ?thesis by simp
    next
      case False
      from install_law_none [OF other0 [OF False]] res show ?thesis by simp
    qed
    from b4 Some have nf: "\<not> f" by auto
    from b5 Some res have l4: "\<forall>p. r = Some p \<longrightarrow> \<not> f \<and> (\<exists>n e. p = InstallFailed n e)" by auto
    from l1 l2 nf l4 show ?thesis by blast
  next
    case None
    obtain r1 tr1 w1 where l: "for_each (install_one h dir pins v f) ss w0 = (r1, tr1, w1)"
      by (metis prod.exhaust)
    with Cons.prems(1) b None have res: "r = r1" "tr = evs0 @ tr1" by simp_all
    from Cons.prems(2) have d: "distinct (map Name ss)" and fresh: "Name s \<notin> Name ` set ss" by auto
    from Cons.IH [OF l d] have
      i1: "\<forall>e \<in> set tr1. \<forall>n k. is_exec n k e \<longrightarrow> n \<in> Name ` set ss"
      and i2: "\<And>n. install_law h pins v f n r1 tr1"
      and i3: "f \<longrightarrow> r1 = None \<and> (\<forall>s \<in> set ss. EvPrint (OutInstalling (Name s)) \<in> set tr1)"
      and i4: "\<forall>p. r1 = Some p \<longrightarrow> \<not> f \<and> (\<exists>n e. p = InstallFailed n e)"
      by blast+
    have other1: "\<forall>e \<in> set tr1. \<forall>k. \<not> is_exec (Name s) k e"
      using i1 fresh by blast
    have l1: "\<forall>e \<in> set tr. \<forall>n k. is_exec n k e \<longrightarrow> n \<in> Name ` set (s # ss)"
    proof (intro ballI allI impI)
      fix e n k
      assume "e \<in> set tr" "is_exec n k e"
      with res b1 i1 have "n = Name s \<or> n \<in> Name ` set ss" by auto
      then show "n \<in> Name ` set (s # ss)" by auto
    qed
    have l2: "install_law h pins v f n r tr" for n
    proof (cases "n = Name s")
      case True
      from b2 None have "install_law h pins v f (Name s) None evs0" by simp
      from install_law_append_right [OF other1 this] True res show ?thesis by simp
    next
      case False
      from install_law_append_left [OF other0 [OF False] i2] res show ?thesis by simp
    qed
    have l3: "f \<longrightarrow> r = None \<and> (\<forall>t \<in> set (s # ss). EvPrint (OutInstalling (Name t)) \<in> set tr)"
      using i3 b3 res by auto
    from l1 l2 l3 i4 res show ?thesis by blast
  qed
qed

text \<open>
  Claim C4, as amended. In an install run over targets of distinct names: a target whose
  \<open>ver\<close> succeeds gets the skipping line and no \<open>install\<close>; for a target whose \<open>ver\<close>
  fails \<open>checklatest\<close> is run, and \<open>install\<close> is run with the pinned version when the pin
  of the target is not empty, and otherwise with the empty string if \<open>checklatest\<close> failed
  and with its trimmed output if it succeeded; a failed \<open>install\<close> is the panic that ends
  the run unless the force flag is set, and with the flag a warning is printed, the run does
  not panic and every target is tried. The history agrees with the host.
\<close>

theorem install_decisions:
  assumes "run_command h dir pins v f sets commandInstall w = (r, tr, w')"
    and "distinct (map Name sets)"
  shows "replay h w tr = Some w' \<and>
     (\<forall>n out. EvExec n commandVer [] False out None \<in> set tr \<longrightarrow>
        EvPrint (OutSkipping n (TrimSpace h out)) \<in> set tr \<and>
        (\<forall>e \<in> set tr. \<not> is_exec n commandInstall e)) \<and>
     (\<forall>n out1 e1. EvExec n commandVer [] False out1 (Some e1) \<in> set tr \<longrightarrow>
        (\<exists>out2 err2. EvExec n commandChecklatest [] False out2 err2 \<in> set tr)) \<and>
     (\<forall>n out1 e1 out2 err2.
        EvExec n commandVer [] False out1 (Some e1) \<in> set tr \<and>
        EvExec n commandChecklatest [] False out2 err2 \<in> set tr \<longrightarrow>
        (\<exists>out3 err3. EvExec n commandInstall
           (if index pins n \<noteq> [] then index pins n
            else if err2 = None then TrimSpace h out2 else []) v out3 err3 \<in> set tr)) \<and>
     (\<forall>n ver vb out e. EvExec n commandInstall ver vb out (Some e) \<in> set tr \<longrightarrow>
        (if f then EvPrint (OutWarn (InstallFailed n e)) \<in> set tr
         else r = Some (InstallFailed n e) \<and> tr \<noteq> [] \<and>
              last tr = EvExec n commandInstall ver vb out (Some e))) \<and>
     (f \<longrightarrow> r = None \<and> (\<forall>s \<in> set sets. EvPrint (OutInstalling (Name s)) \<in> set tr)) \<and>
     (\<forall>p. r = Some p \<longrightarrow> \<not> f \<and> (\<exists>n e. p = InstallFailed n e))"
proof -
  from assms(1) have l: "for_each (install_one h dir pins v f) sets w = (r, tr, w')" by simp
  have rp: "replay h w tr = Some w'" using assms(1) by (rule run_command_replay)
  from install_loop_law [OF l assms(2)] have
    law: "\<And>n. install_law h pins v f n r tr"
    and l3: "f \<longrightarrow> r = None \<and> (\<forall>s \<in> set sets. EvPrint (OutInstalling (Name s)) \<in> set tr)"
    and l4: "\<forall>p. r = Some p \<longrightarrow> \<not> f \<and> (\<exists>n e. p = InstallFailed n e)"
    by blast+
  from law have
    "\<forall>n. (\<forall>out. EvExec n commandVer [] False out None \<in> set tr \<longrightarrow>
        EvPrint (OutSkipping n (TrimSpace h out)) \<in> set tr \<and>
        (\<forall>e \<in> set tr. \<not> is_exec n commandInstall e)) \<and>
     (\<forall>out1 e1. EvExec n commandVer [] False out1 (Some e1) \<in> set tr \<longrightarrow>
        (\<exists>out2 err2. EvExec n commandChecklatest [] False out2 err2 \<in> set tr)) \<and>
     (\<forall>out1 e1 out2 err2.
        EvExec n commandVer [] False out1 (Some e1) \<in> set tr \<and>
        EvExec n commandChecklatest [] False out2 err2 \<in> set tr \<longrightarrow>
        (\<exists>out3 err3. EvExec n commandInstall
           (if index pins n \<noteq> [] then index pins n
            else if err2 = None then TrimSpace h out2 else []) v out3 err3 \<in> set tr)) \<and>
     (\<forall>ver vb out e. EvExec n commandInstall ver vb out (Some e) \<in> set tr \<longrightarrow>
        (if f then EvPrint (OutWarn (InstallFailed n e)) \<in> set tr
         else r = Some (InstallFailed n e) \<and> tr \<noteq> [] \<and>
              last tr = EvExec n commandInstall ver vb out (Some e)))"
    unfolding install_law_def by blast
  with rp l3 l4 show ?thesis by blast
qed

theorem install_decisions_witness:
  "run_command small_host ''cfg'' [(''x'', ''1.0'')] False True
     [target ''x'' (Some [''false'']) (Some [''false'']) (Some [''echo'', ''${VER}'']) None,
      target ''y'' (Some [''false'']) (Some [''echo'', '' 2.0'']) (Some [''fail'', ''${VER}'']) None,
      target ''z'' (Some [''echo'', ''3.0'']) None None None,
      target ''u'' (Some [''false'']) (Some [''false'']) (Some [''echo'', ''v=${VER}'']) None]
     commandInstall 0
   = (None,
      [EvPrint (OutInstalling ''x''),
       EvLaunch [''false''] [''HOME=/root'', ''OS=linux'', ''ARCH=amd64''] False,
       EvExec ''x'' commandVer [] False [] (Some (ProcessError ''exit status 1'')),
       EvLaunch [''false''] [''HOME=/root'', ''OS=linux'', ''ARCH=amd64''] False,
       EvExec ''x'' commandChecklatest [] False [] (Some (ProcessError ''exit status 1'')),
       EvPrint (OutFetchFailed (ProcessError ''exit status 1'')),
       EvLaunch [''echo'', ''1.0''] [''HOME=/root'', ''OS=linux'', ''ARCH=amd64'', ''VER=1.0''] False,
       EvExec ''x'' commandInstall ''1.0'' False (''1.0'' @ [CHR 0x0A]) None,
       EvPrint (OutInstallDone ''x''),
       EvPrint (OutInstalling ''y''),
       EvLaunch [''false''] [''HOME=/root'', ''OS=linux'', ''ARCH=amd64''] False,
       EvExec ''y'' commandVer [] False [] (Some (ProcessError ''exit status 1'')),
       EvLaunch [''echo'', '' 2.0''] [''HOME=/root'', ''OS=linux'', ''ARCH=amd64''] False,
       EvExec ''y'' commandChecklatest [] False ('' 2.0'' @ [CHR 0x0A]) None,
       EvLaunch [''fail'', ''2.0''] [''HOME=/root'', ''OS=linux'', ''ARCH=amd64'', ''VER=2.0''] False,
       EvExec ''y'' commandInstall ''2.0'' False (''2.0'' @ [CHR 0x0A])
         (Some (ProcessError ''exit status 1'')),
       EvPrint (OutWarn (InstallFailed ''y'' (ProcessError ''exit status 1''))),
       EvPrint (OutInstalling ''z''),
       EvLaunch [''echo'', ''3.0''] [''HOME=/root'', ''OS=linux'', ''ARCH=amd64''] False,
       EvExec ''z'' commandVer [] False (''3.0'' @ [CHR 0x0A]) None,
       EvPrint (OutSkipping ''z'' ''3.0''),
       EvPrint (OutInstalling ''u''),
       EvLaunch [''false''] [''HOME=/root'', ''OS=linux'', ''ARCH=amd64''] False,
       EvExec ''u'' commandVer [] False [] (Some (ProcessError ''exit status 1'')),
       EvLaunch [''false''] [''HOME=/root'', ''OS=linux'', ''ARCH=amd64''] False,
       EvExec ''u'' commandChecklatest [] False [] (Some (ProcessError ''exit status 1'')),
       EvPrint (OutFetchFailed (ProcessError ''exit status 1'')),
       EvLaunch [''echo'', ''v=''] [''HOME=/root'', ''OS=linux'', ''ARCH=amd64''] False,
       EvExec ''u'' commandInstall [] False (''v='' @ [CHR 0x0A]) None,
       EvPrint (OutInstallDone ''u'')],
      10) \<and>
   distinct (map Name
     [target ''x'' (Some [''false'']) (Some [''false'']) (Some [''echo'', ''${VER}'']) None,
      target ''y'' (Some [''false'']) (Some [''echo'', '' 2.0'']) (Some [''fail'', ''${VER}'']) None,
      target ''z'' (Some [''echo'', ''3.0'']) None None None,
      target ''u'' (Some [''false'']) (Some [''false'']) (Some [''echo'', ''v=${VER}'']) None]) \<and>
   index [(''x'', ''1.0'')] ''x'' = ''1.0'' \<and> index [(''x'', ''1.0'')] ''y'' = [] \<and>
   TrimSpace small_host ('' 2.0'' @ [CHR 0x0A]) = ''2.0''"
  (is "?run = (None, ?tr, 10) \<and> ?d \<and> ?rest")
proof -
  have run: "?run = (None, ?tr, 10)" by (simp add: run_defs)
  have d: ?d by (simp add: target_def)
  from install_decisions [OF run d] have "replay small_host 0 ?tr = Some 10" by (rule conjunct1)
  moreover have ?rest by (simp add: index_def small_host_def trim_ascii_def ascii_space_def)
  ultimately show ?thesis using run d by blast
qed

text \<open>
  Claim C4, as stated, fails where the target is pinned: with the pins \<open>x\<close> at \<open>1.0\<close> and
  \<open>y\<close> at \<open>1.5\<close>, \<open>install\<close> of \<open>x\<close>, whose \<open>checklatest\<close> failed, is run with \<open>1.0\<close>
  and not with the empty string, and \<open>install\<close> of \<open>y\<close>, whose \<open>checklatest\<close> printed
  \<open>2.0\<close>, is run with \<open>1.5\<close>.
\<close>

theorem install_uses_pin:
  "run_command small_host ''cfg'' [(''x'', ''1.0''), (''y'', ''1.5'')] False False
     [target ''x'' (Some [''false'']) (Some [''false'']) (Some [''echo'', ''${VER}'']) None,
      target ''y'' (Some [''false'']) (Some [''echo'', ''2.0'']) (Some [''echo'', ''${VER}'']) None]
     commandInstall 0
   = (None,
      [EvPrint (OutInstalling ''x''),
       EvLaunch [''false''] [''HOME=/root'', ''OS=linux'', ''ARCH=amd64''] False,
       EvExec ''x'' commandVer [] False [] (Some (ProcessError ''exit status 1'')),
       EvLaunch [''false''] [''HOME=/root'', ''OS=linux'', ''ARCH=amd64''] False,
       EvExec ''x'' commandChecklatest [] False [] (Some (ProcessError ''exit status 1'')),
       EvPrint (OutFetchFailed (ProcessError ''exit status 1'')),
       EvLaunch [''echo'', ''1.0''] [''HOME=/root'', ''OS=linux'', ''ARCH=amd64'', ''VER=1.0''] False,
       EvExec ''x'' commandInstall ''1.0'' False (''1.0'' @ [CHR 0x0A]) None,
       EvPrint (OutInstallDone ''x''),
       EvPrint (OutInstalling ''y''),
       EvLaunch [''false''] [''HOME=/root'', ''OS=linux'', ''ARCH=amd64''] False,
       EvExec ''y'' commandVer [] False [] (Some (ProcessError ''exit status 1'')),
       EvLaunch [''echo'', ''2.0''] [''HOME=/root'', ''OS=linux'', ''ARCH=amd64''] False,
       EvExec ''y'' commandChecklatest [] False (''2.0'' @ [CHR 0x0A]) None,
       EvLaunch [''echo'', ''1.5''] [''HOME=/root'', ''OS=linux'', ''ARCH=amd64'', ''VER=1.5''] False,
       EvExec ''y'' commandInstall ''1.5'' False (''1.5'' @ [CHR 0x0A]) None,
       EvPrint (OutInstallDone ''y'')],
      6) \<and>
   ''1.0'' \<noteq> [] \<and> ''1.5'' \<noteq> TrimSpace small_host (''2.0'' @ [CHR 0x0A])"
  by (simp add: run_defs)

end
